theory Spec2Isabelle
  imports Complex_Main "HOL-Library.Word" "HOL-Library.Multiset"
begin

unbundle bit_operations_syntax

section \<open>The operator engine of the structure-learning search\<close>

text \<open>
  A shallow embedding of \<^verbatim>\<open>src/src/learning/operators/operators.hpp\<close>.

  Conventions of the embedding.
  \<^item> A \<^verbatim>\<open>double\<close> is a \<open>real\<close>: the development is about which value is stored
    and compared where, not about rounding.  \<^verbatim>\<open>std::numeric_limits<double>::lowest()\<close>
    is the finite constant \<open>lowest\<close>.
  \<^item> Node indices (\<^verbatim>\<open>int\<close> in the source, never negative there) are \<open>nat\<close>.
  \<^item> An Eigen vector is a list.  An Eigen matrix is its coefficient function
    \<open>i j \<mapsto> M(i, j)\<close>; the storage behind \<^verbatim>\<open>data()\<close> is column-major, so
    coefficient \<open>(i, j)\<close> of a matrix with \<open>n\<close> rows sits at \<open>data()[i + j * n]\<close>.
  \<^item> Eigen's sized constructors allocate and do not initialise.  The constructors below
    take the content of the fresh storage as an argument \<open>storage\<close>.
  \<^item> The class hierarchy \<open>Operator / ArcOperator / {AddArc, RemoveArc, FlipArc}\<close> and
    \<open>ChangeNodeType\<close> is one datatype; a \<^verbatim>\<open>switch\<close> on \<^verbatim>\<open>op->type()\<close> followed by a
    \<^verbatim>\<open>dynamic_cast\<close> is a case distinction.  A null \<^verbatim>\<open>shared_ptr<Operator>\<close> is \<open>None\<close>.
  \<^item> A method that changes its object returns the new object.  The local score cache,
    which the pool shares with its operator sets, is passed to the methods that read it.
\<close>

subsection \<open>Operator kinds and factor types\<close>

datatype OperatorType = ADD_ARC | REMOVE_ARC | FLIP_ARC | CHANGE_NODE_TYPE

text \<open>The enumerators' values (\<^verbatim>\<open>enum Value : uint8_t\<close>, lines 24 to 30).\<close>

fun OperatorType_value :: "OperatorType \<Rightarrow> nat" where
  "OperatorType_value ADD_ARC = 0"
| "OperatorType_value REMOVE_ARC = 1"
| "OperatorType_value FLIP_ARC = 2"
| "OperatorType_value CHANGE_NODE_TYPE = 3"

text \<open>
  Modelled from the spec: \<^verbatim>\<open>factors::FactorType\<close> is declared outside the given sources.
  The spec's glossary calls it a discrete tag on a node with a binary \<open>opposite\<close>, so it
  is a two-valued tag.
\<close>

datatype FactorType = LinearGaussianCPD | CKDE

text \<open>
  Modelled from the spec: \<^verbatim>\<open>FactorType::opposite()\<close>, the binary type flip.
\<close>

fun FactorType_opposite :: "FactorType \<Rightarrow> FactorType" where
  "FactorType_opposite LinearGaussianCPD = CKDE"
| "FactorType_opposite CKDE = LinearGaussianCPD"

subsection \<open>Operators (lines 72 to 190)\<close>

datatype Operator =
    AddArc string string real
  | RemoveArc string string real
  | FlipArc string string real
  | ChangeNodeType string FactorType real

fun op_delta :: "Operator \<Rightarrow> real" where
  "op_delta (AddArc s t d) = d"
| "op_delta (RemoveArc s t d) = d"
| "op_delta (FlipArc s t d) = d"
| "op_delta (ChangeNodeType n ty d) = d"

fun op_type :: "Operator \<Rightarrow> OperatorType" where
  "op_type (AddArc s t d) = ADD_ARC"
| "op_type (RemoveArc s t d) = REMOVE_ARC"
| "op_type (FlipArc s t d) = FLIP_ARC"
| "op_type (ChangeNodeType n ty d) = CHANGE_NODE_TYPE"

text \<open>
  \<^verbatim>\<open>ArcOperator::source()\<close> and \<^verbatim>\<open>target()\<close> exist on the three arc operators only.
\<close>

fun arc_source :: "Operator \<Rightarrow> string" where
  "arc_source (AddArc s t d) = s"
| "arc_source (RemoveArc s t d) = s"
| "arc_source (FlipArc s t d) = s"

fun arc_target :: "Operator \<Rightarrow> string" where
  "arc_target (AddArc s t d) = t"
| "arc_target (RemoveArc s t d) = t"
| "arc_target (FlipArc s t d) = t"

text \<open>
  Modelled from the spec: \<^verbatim>\<open>AddArc::opposite()\<close> is only declared in the header
  (line 112); its body is not in the given sources.  The spec gives
  \<open>opposite(AddArc s\<rightarrow>t, \<Delta>) = RemoveArc s\<rightarrow>t, -\<Delta>\<close>.
\<close>

definition AddArc_opposite :: "string \<Rightarrow> string \<Rightarrow> real \<Rightarrow> Operator" where
  "AddArc_opposite s t d = RemoveArc s t (- d)"

text \<open>
  \<^verbatim>\<open>RemoveArc::opposite\<close> (line 130), \<^verbatim>\<open>FlipArc::opposite\<close> (line 151) and
  \<^verbatim>\<open>ChangeNodeType::opposite\<close> (line 178), with the virtual dispatch as a case distinction.
\<close>

fun opposite :: "Operator \<Rightarrow> Operator" where
  "opposite (AddArc s t d) = AddArc_opposite s t d"
| "opposite (RemoveArc s t d) = AddArc s t (- d)"
| "opposite (FlipArc s t d) = FlipArc t s (- d)"
| "opposite (ChangeNodeType n ty d) = ChangeNodeType n (FactorType_opposite ty) (- d)"

subsection \<open>Hashing and equality of operators (lines 192 to 248)\<close>

text \<open>
  \<^verbatim>\<open>std::hash<std::string>\<close> and the conversion of a \<^verbatim>\<open>FactorType\<close> to an integer are
  not part of the sources; they are the parameters \<open>hasher\<close> and \<open>ft_value\<close>.
  \<^verbatim>\<open>std::size_t\<close> is a 64-bit word.
\<close>

fun HashOperator :: "(string \<Rightarrow> 64 word) \<Rightarrow> (FactorType \<Rightarrow> 64 word) \<Rightarrow> Operator \<Rightarrow> 64 word" where
  "HashOperator hasher ft_value (ChangeNodeType n ty d) = hasher n * ft_value ty"
| "HashOperator hasher ft_value ope =
     push_bit (OperatorType_value (op_type ope) + 1) (hasher (arc_source ope)) XOR hasher (arc_target ope)"

fun OperatorPtrEqual :: "Operator \<Rightarrow> Operator \<Rightarrow> bool" where
  "OperatorPtrEqual lhs rhs =
     (if op_type lhs \<noteq> op_type rhs then False
      else (case lhs of
              ChangeNodeType n ty d \<Rightarrow>
                (case rhs of
                   ChangeNodeType n' ty' d' \<Rightarrow> n = n' \<and> ty = ty'
                 | _ \<Rightarrow> False)
            | _ \<Rightarrow> arc_source lhs = arc_source rhs \<and> arc_target lhs = arc_target rhs))"

subsection \<open>The tabu set (lines 250 to 293)\<close>

text \<open>
  An \<^verbatim>\<open>unordered_map\<close> keyed by operators under \<open>HashOperator\<close> and \<open>OperatorPtrEqual\<close>.
  Equal operators hash alike, so \<^verbatim>\<open>count(op) > 0\<close> holds exactly when some stored
  operator is equal to \<open>op\<close>; the set is the list of its stored operators.
\<close>

type_synonym OperatorTabuSet = "Operator list"

definition tabu_contains :: "OperatorTabuSet \<Rightarrow> Operator \<Rightarrow> bool" where
  "tabu_contains tabu_set ope = list_ex (\<lambda>stored. OperatorPtrEqual stored ope) tabu_set"

definition tabu_insert :: "Operator \<Rightarrow> OperatorTabuSet \<Rightarrow> OperatorTabuSet" where
  "tabu_insert ope tabu_set = (if tabu_contains tabu_set ope then tabu_set else tabu_set @ [ope])"

definition tabu_empty :: "OperatorTabuSet \<Rightarrow> bool" where
  "tabu_empty tabu_set = (tabu_set = [])"

subsection \<open>The model and the score, at their interface\<close>

text \<open>
  \<^verbatim>\<open>BayesianNetwork\<close> is an external collaborator; the operator engine uses the
  capabilities below and nothing else.  \<open>indices\<close> is the name-to-index map that the
  constructors copy and read with \<^verbatim>\<open>operator[]\<close>.  The capabilities are
  independent fields: what relates them (an arc is reported exactly for a listed parent)
  is an explicit assumption where a result needs it.
\<close>

record Model =
  num_nodes :: nat
  name :: "nat \<Rightarrow> string"
  index :: "string \<Rightarrow> nat"
  indices :: "string \<rightharpoonup> nat"
  parent_indices :: "nat \<Rightarrow> nat list"
  num_parents :: "nat \<Rightarrow> int"
  has_edge :: "nat \<Rightarrow> nat \<Rightarrow> bool"
  can_add_edge :: "nat \<Rightarrow> nat \<Rightarrow> bool"
  can_flip_edge :: "nat \<Rightarrow> nat \<Rightarrow> bool"
  node_type :: "nat \<Rightarrow> FactorType"

text \<open>
  \<^verbatim>\<open>indices[key]\<close> on the copied \<^verbatim>\<open>unordered_map\<close>: a missing key is inserted with the
  value-initialised index 0.
\<close>

definition indices_at :: "Model \<Rightarrow> string \<Rightarrow> nat" where
  "indices_at m key = (case indices m key of Some i \<Rightarrow> i | None \<Rightarrow> 0)"

text \<open>
  The score: \<open>local_score sc m v ps\<close> is \<^verbatim>\<open>score.local_score(model, v, first, last)\<close> on
  the range holding the list \<open>ps\<close>, and \<open>local_score_node sc m v\<close> is
  \<^verbatim>\<open>score.local_score(model, v)\<close>, the score of \<open>v\<close> with its current parents.
\<close>

record Score =
  local_score :: "Model \<Rightarrow> nat \<Rightarrow> nat list \<Rightarrow> real"
  local_score_node :: "Model \<Rightarrow> nat \<Rightarrow> real"

definition lowest :: real where
  "lowest = - (2 ^ 1024 - 2 ^ 971)"

subsection \<open>LocalScoreCache (lines 340 to 392)\<close>

record LocalScoreCache =
  m_local_score :: "real list"

text \<open>
  The constructor \<^verbatim>\<open>m_local_score(m.num_nodes())\<close> sizes the vector; its coefficients are
  what the storage held.
\<close>

definition LocalScoreCache_new :: "(nat \<Rightarrow> real) \<Rightarrow> Model \<Rightarrow> LocalScoreCache" where
  "LocalScoreCache_new storage m = \<lparr> m_local_score = map storage [0..<num_nodes m] \<rparr>"

definition cache_local_scores :: "Model \<Rightarrow> Score \<Rightarrow> LocalScoreCache \<Rightarrow> LocalScoreCache" where
  "cache_local_scores m sc c =
     c \<lparr> m_local_score :=
           fold (\<lambda>i v. v[i := local_score_node sc m i]) [0..<num_nodes m] (m_local_score c) \<rparr>"

definition cache_sum :: "LocalScoreCache \<Rightarrow> real" where
  "cache_sum c = sum_list (m_local_score c)"

definition cached_local_score :: "LocalScoreCache \<Rightarrow> nat \<Rightarrow> real" where
  "cached_local_score c i = m_local_score c ! i"

subsection \<open>Library routines the operator sets call\<close>

text \<open>Writing one coefficient of a matrix: \<^verbatim>\<open>M(i, j) = v\<close>.\<close>

definition coeff_set :: "(nat \<Rightarrow> nat \<Rightarrow> 'a) \<Rightarrow> nat \<Rightarrow> nat \<Rightarrow> 'a \<Rightarrow> (nat \<Rightarrow> nat \<Rightarrow> 'a)" where
  "coeff_set M i j v = M(i := (M i)(j := v))"

text \<open>\<^verbatim>\<open>std::find\<close>: the position of the first occurrence, the length when there is none.\<close>

fun find_pos :: "nat \<Rightarrow> nat list \<Rightarrow> nat" where
  "find_pos x [] = 0"
| "find_pos x (y # ys) = (if y = x then 0 else Suc (find_pos x ys))"

text \<open>
  \<^verbatim>\<open>std::iter_swap(std::find(v.begin(), v.end(), x), v.end() - 1)\<close>: the first occurrence
  of \<open>x\<close> changes places with the last element.  When \<open>x\<close> does not occur, \<^verbatim>\<open>std::find\<close>
  returns \<^verbatim>\<open>end()\<close> and the swap dereferences it: undefined behaviour, the value \<open>None\<close>.
\<close>

definition swap_to_back :: "nat \<Rightarrow> nat list \<Rightarrow> nat list option" where
  "swap_to_back x v =
     (let p = find_pos x v in
      if p < length v then Some (v[p := v ! (length v - 1), length v - 1 := v ! p]) else None)"

text \<open>A \<^verbatim>\<open>for\<close> loop whose body may fail: the state after the last iteration, or \<open>None\<close>.\<close>

fun for_each :: "('i \<Rightarrow> 's \<Rightarrow> 's option) \<Rightarrow> 'i list \<Rightarrow> 's \<Rightarrow> 's option" where
  "for_each body [] st = Some st"
| "for_each body (i # rest) st =
     (case body i st of None \<Rightarrow> None | Some st' \<Rightarrow> for_each body rest st')"

text \<open>
  The comparator every \<open>find_max\<close> hands to \<^verbatim>\<open>std::sort\<close> (lines 664, 701 and 892):
  \<^verbatim>\<open>[&delta_ptr](auto i1, auto i2) { return delta_ptr[i1] >= delta_ptr[i2]; }\<close>.
\<close>

definition sort_comparator :: "(nat \<Rightarrow> real) \<Rightarrow> nat \<Rightarrow> nat \<Rightarrow> bool" where
  "sort_comparator delta_ptr i1 i2 = (delta_ptr i1 \<ge> delta_ptr i2)"

text \<open>
  \<^verbatim>\<open>std::sort\<close> is a library routine whose algorithm the standard leaves open.  An
  insertion sort driven by the comparator stands for it; the results below that concern
  \<open>find_max\<close> use only that the sorted vector holds the same indices as before.
  The standard asks the comparator for a strict weak ordering; what the routine does
  with a comparator that is none is not part of this embedding, and neither is the
  order in which the routine leaves indices of equal delta: both are this sort's own.
\<close>

fun insert_sorted :: "('a \<Rightarrow> 'a \<Rightarrow> bool) \<Rightarrow> 'a \<Rightarrow> 'a list \<Rightarrow> 'a list" where
  "insert_sorted cmp x [] = [x]"
| "insert_sorted cmp x (y # ys) =
     (if cmp x y then x # y # ys else y # insert_sorted cmp x ys)"

fun std_sort :: "('a \<Rightarrow> 'a \<Rightarrow> bool) \<Rightarrow> 'a list \<Rightarrow> 'a list" where
  "std_sort cmp [] = []"
| "std_sort cmp (x # xs) = insert_sorted cmp x (std_sort cmp xs)"

text \<open>
  \<^verbatim>\<open>std::max_element\<close>: the position of the first largest element; for an empty range
  the result is \<^verbatim>\<open>first\<close>, position 0.
\<close>

fun max_element_from :: "real \<Rightarrow> nat \<Rightarrow> nat \<Rightarrow> real list \<Rightarrow> nat" where
  "max_element_from largest pos i [] = pos"
| "max_element_from largest pos i (x # xs) =
     (if largest < x then max_element_from x i (Suc i) xs
      else max_element_from largest pos (Suc i) xs)"

definition max_element :: "real list \<Rightarrow> nat" where
  "max_element v = (case v of [] \<Rightarrow> 0 | x # xs \<Rightarrow> max_element_from x 0 1 xs)"

subsection \<open>ArcOperatorSet (lines 512 to 801)\<close>

type_synonym ArcVector = "(string \<times> string) list"

record ArcOperatorSet =
  m_score :: Score
  delta :: "nat \<Rightarrow> nat \<Rightarrow> real"
  valid_op :: "nat \<Rightarrow> nat \<Rightarrow> bool"
  sorted_idx :: "nat list"
  max_indegree :: int

text \<open>The body of the loop over the list the definition calls \<open>whitelist\<close> (lines 569 to 577).\<close>

definition knock_out_both :: "Model \<Rightarrow> string \<times> string \<Rightarrow> ArcOperatorSet \<Rightarrow> ArcOperatorSet" where
  "knock_out_both m whitelist_edge s =
     (let source_index = indices_at m (fst whitelist_edge);
          dest_index = indices_at m (snd whitelist_edge)
      in s \<lparr> valid_op := coeff_set (coeff_set (valid_op s) source_index dest_index False)
                             dest_index source_index False,
             delta := coeff_set (coeff_set (delta s) source_index dest_index lowest)
                         dest_index source_index lowest \<rparr>)"

text \<open>The body of the loop over the list the definition calls \<open>blacklist\<close> (lines 579 to 585).\<close>

definition knock_out_one :: "Model \<Rightarrow> string \<times> string \<Rightarrow> ArcOperatorSet \<Rightarrow> ArcOperatorSet" where
  "knock_out_one m blacklist_edge s =
     (let source_index = indices_at m (fst blacklist_edge);
          dest_index = indices_at m (snd blacklist_edge)
      in s \<lparr> valid_op := coeff_set (valid_op s) source_index dest_index False,
             delta := coeff_set (delta s) source_index dest_index lowest \<rparr>)"

text \<open>The body of the loop over the diagonal (lines 587 to 590).\<close>

definition knock_out_diagonal :: "nat \<Rightarrow> ArcOperatorSet \<Rightarrow> ArcOperatorSet" where
  "knock_out_diagonal i s =
     s \<lparr> valid_op := coeff_set (valid_op s) i i False,
         delta := coeff_set (delta s) i i lowest \<rparr>"

text \<open>
  The constructor as it is defined (lines 549 to 601).  Its parameters are, in this
  order, \<open>model, score, blacklist, whitelist, max_indegree\<close>; the declaration inside the
  class (line 522) names the same positions \<open>model, score, whitelist, blacklist,
  max_indegree\<close>.  Arguments are bound by position, so the third argument of a call is
  the list the body treats as \<open>blacklist\<close> and the fourth the one it treats as
  \<open>whitelist\<close>.  \<open>storage\<close> is the content of the matrix \<open>delta\<close> as allocated;
  \<open>valid_op\<close> is filled with \<open>true\<close> before it is read.
\<close>

definition ArcOperatorSet_new ::
  "(nat \<Rightarrow> nat \<Rightarrow> real) \<Rightarrow> Model \<Rightarrow> Score \<Rightarrow> ArcVector \<Rightarrow> ArcVector \<Rightarrow> int \<Rightarrow> ArcOperatorSet" where
  "ArcOperatorSet_new storage model score blacklist whitelist max_indeg =
     (let n = num_nodes model;
          s0 = \<lparr> m_score = score, delta = storage, valid_op = (\<lambda>i j. True),
                 sorted_idx = [], max_indegree = max_indeg \<rparr>;
          s1 = fold (knock_out_both model) whitelist s0;
          s2 = fold (knock_out_one model) blacklist s1;
          s3 = fold knock_out_diagonal [0..<n] s2
      in s3 \<lparr> sorted_idx :=
                concat (map (\<lambda>i. concat (map (\<lambda>j. if valid_op s3 i j then [i + j * n] else [])
                                              [0..<n]))
                            [0..<n]) \<rparr>)"

text \<open>
  One pass of the inner loop of \<open>cache_scores\<close> (lines 610 to 633), for the pair
  \<open>(source, dest)\<close>.  The loop state is the scratch vector \<open>new_parents_dest\<close> and the
  matrix \<open>delta\<close>; \<open>push_back\<close> followed by \<open>pop_back\<close> leaves the scratch vector as it was.
\<close>

definition cache_scores_pair ::
  "Model \<Rightarrow> LocalScoreCache \<Rightarrow> ArcOperatorSet \<Rightarrow> nat \<Rightarrow> nat
     \<Rightarrow> nat list \<times> (nat \<Rightarrow> nat \<Rightarrow> real) \<Rightarrow> (nat list \<times> (nat \<Rightarrow> nat \<Rightarrow> real)) option" where
  "cache_scores_pair model cache s dest source st =
     (let new_parents_dest = fst st; dl = snd st in
      if valid_op s source dest then
        if has_edge model source dest then
          (case swap_to_back source new_parents_dest of
             None \<Rightarrow> None
           | Some swapped \<Rightarrow>
               let d = local_score (m_score s) model dest (butlast swapped)
                         - cached_local_score cache dest
               in Some (swapped, coeff_set dl source dest d))
        else if has_edge model dest source then
          (case swap_to_back dest (parent_indices model source) of
             None \<Rightarrow> None
           | Some new_parents_source \<Rightarrow>
               let d = local_score (m_score s) model source (butlast new_parents_source)
                         + local_score (m_score s) model dest (new_parents_dest @ [source])
                         - cached_local_score cache source - cached_local_score cache dest
               in Some (new_parents_dest, coeff_set dl dest source d))
        else
          (let d = local_score (m_score s) model dest (new_parents_dest @ [source])
                     - cached_local_score cache dest
           in Some (new_parents_dest, coeff_set dl source dest d))
      else Some st)"

text \<open>The body of the outer loop: one destination node, all sources (lines 606 to 635).\<close>

definition cache_scores_dest ::
  "Model \<Rightarrow> LocalScoreCache \<Rightarrow> ArcOperatorSet \<Rightarrow> nat
     \<Rightarrow> (nat \<Rightarrow> nat \<Rightarrow> real) \<Rightarrow> (nat \<Rightarrow> nat \<Rightarrow> real) option" where
  "cache_scores_dest model cache s dest dl =
     map_option snd
       (for_each (cache_scores_pair model cache s dest) [0..<num_nodes model]
          (parent_indices model dest, dl))"

definition ArcOperatorSet_cache_scores ::
  "Model \<Rightarrow> LocalScoreCache \<Rightarrow> ArcOperatorSet \<Rightarrow> ArcOperatorSet option" where
  "ArcOperatorSet_cache_scores model cache s =
     map_option (\<lambda>dl. s \<lparr> delta := dl \<rparr>)
       (for_each (cache_scores_dest model cache s) [0..<num_nodes model] (delta s))"

text \<open>
  One pass of the loop of \<open>update_node_arcs_scores\<close> (lines 770 to 799), for the node \<open>i\<close>.
\<close>

definition update_node_arcs_scores_node ::
  "Model \<Rightarrow> LocalScoreCache \<Rightarrow> ArcOperatorSet \<Rightarrow> nat \<Rightarrow> nat
     \<Rightarrow> nat list \<times> (nat \<Rightarrow> nat \<Rightarrow> real) \<Rightarrow> (nat list \<times> (nat \<Rightarrow> nat \<Rightarrow> real)) option" where
  "update_node_arcs_scores_node model cache s dest_idx i st =
     (let parents = fst st; dl = snd st in
      if valid_op s i dest_idx then
        if has_edge model i dest_idx then
          (case swap_to_back i parents of
             None \<Rightarrow> None
           | Some swapped \<Rightarrow>
               let d = local_score (m_score s) model dest_idx (butlast swapped)
                         - cached_local_score cache dest_idx;
                   dl1 = coeff_set dl i dest_idx d;
                   new_parents_i = parent_indices model i @ [dest_idx]
               in Some (swapped,
                        coeff_set dl1 dest_idx i
                          (d + local_score (m_score s) model i new_parents_i
                             - cached_local_score cache i)))
        else if has_edge model dest_idx i then
          (case swap_to_back dest_idx (parent_indices model i) of
             None \<Rightarrow> None
           | Some new_parents_i \<Rightarrow>
               let d = local_score (m_score s) model i (butlast new_parents_i)
                         + local_score (m_score s) model dest_idx (parents @ [i])
                         - cached_local_score cache i - cached_local_score cache dest_idx
               in Some (parents, coeff_set dl dest_idx i d))
        else
          (let d = local_score (m_score s) model dest_idx (parents @ [i])
                     - cached_local_score cache dest_idx
           in Some (parents, coeff_set dl i dest_idx d))
      else Some st)"

definition update_node_arcs_scores ::
  "Model \<Rightarrow> LocalScoreCache \<Rightarrow> ArcOperatorSet \<Rightarrow> string \<Rightarrow> ArcOperatorSet option" where
  "update_node_arcs_scores model cache s dest_node =
     (let dest_idx = index model dest_node in
      map_option (\<lambda>st. s \<lparr> delta := snd st \<rparr>)
        (for_each (update_node_arcs_scores_node model cache s dest_idx) [0..<num_nodes model]
           (parent_indices model dest_idx, delta s)))"

text \<open>\<open>update_scores\<close> (lines 738 to 760).\<close>

fun ArcOperatorSet_update_scores ::
  "Model \<Rightarrow> LocalScoreCache \<Rightarrow> ArcOperatorSet \<Rightarrow> Operator \<Rightarrow> ArcOperatorSet option" where
  "ArcOperatorSet_update_scores model cache s (FlipArc src tgt d) =
     (case update_node_arcs_scores model cache s src of
        None \<Rightarrow> None
      | Some s' \<Rightarrow> update_node_arcs_scores model cache s' tgt)"
| "ArcOperatorSet_update_scores model cache s (ChangeNodeType n ty d) =
     update_node_arcs_scores model cache s n"
| "ArcOperatorSet_update_scores model cache s ope =
     update_node_arcs_scores model cache s (arc_target ope)"

text \<open>
  \<^verbatim>\<open>delta.data()[idx]\<close>, read through the column-major layout of the square matrix
  \<open>delta\<close> whose dimension is the model's number of nodes.
\<close>

definition delta_ptr :: "Model \<Rightarrow> ArcOperatorSet \<Rightarrow> nat \<Rightarrow> real" where
  "delta_ptr model s idx = delta s (idx mod num_nodes model) (idx div num_nodes model)"

text \<open>
  What one pass of the loop of \<open>find_max_indegree\<close> builds for the entry \<open>idx\<close> of
  \<open>sorted_idx\<close> (lines 669 to 689 and 706 to 732): the operator of the branch taken, or
  \<open>None\<close> when the pass ends without one (\<^verbatim>\<open>continue\<close>, or no branch applies).  The
  template argument \<open>limited_indegree\<close> is the first parameter.
\<close>

definition arc_candidate :: "bool \<Rightarrow> Model \<Rightarrow> ArcOperatorSet \<Rightarrow> nat \<Rightarrow> Operator option" where
  "arc_candidate limited_indegree model s idx =
     (let src = idx mod num_nodes model; dest = idx div num_nodes model in
      if has_edge model src dest then
        Some (RemoveArc (name model src) (name model dest) (delta s src dest))
      else if has_edge model dest src \<and> can_flip_edge model dest src then
        (if limited_indegree \<and> num_parents model dest \<ge> max_indegree s then None
         else Some (FlipArc (name model dest) (name model src) (delta s dest src)))
      else if can_add_edge model src dest then
        (if limited_indegree \<and> num_parents model dest \<ge> max_indegree s then None
         else Some (AddArc (name model src) (name model dest) (delta s src dest)))
      else None)"

text \<open>The loop without a tabu set returns the first operator built (lines 668 to 692).\<close>

fun first_candidate :: "(nat \<Rightarrow> Operator option) \<Rightarrow> nat list \<Rightarrow> Operator option" where
  "first_candidate build [] = None"
| "first_candidate build (idx # rest) =
     (case build idx of
        Some ope \<Rightarrow> Some ope
      | None \<Rightarrow> first_candidate build rest)"

text \<open>
  The loop with a tabu set returns the first operator built for which
  \<^verbatim>\<open>!tabu_set.contains(op)\<close> holds (lines 705 to 735).
\<close>

fun first_candidate_not_tabu ::
  "(nat \<Rightarrow> Operator option) \<Rightarrow> OperatorTabuSet \<Rightarrow> nat list \<Rightarrow> Operator option" where
  "first_candidate_not_tabu build tabu_set [] = None"
| "first_candidate_not_tabu build tabu_set (idx # rest) =
     (case build idx of
        Some ope \<Rightarrow>
          if \<not> tabu_contains tabu_set ope then Some ope
          else first_candidate_not_tabu build tabu_set rest
      | None \<Rightarrow> first_candidate_not_tabu build tabu_set rest)"

text \<open>The in-place sort at the head of both \<open>find_max_indegree\<close> overloads.\<close>

definition sort_sorted_idx :: "Model \<Rightarrow> ArcOperatorSet \<Rightarrow> ArcOperatorSet" where
  "sort_sorted_idx model s =
     s \<lparr> sorted_idx := std_sort (sort_comparator (delta_ptr model s)) (sorted_idx s) \<rparr>"

definition find_max_indegree :: "bool \<Rightarrow> Model \<Rightarrow> ArcOperatorSet \<Rightarrow> Operator option \<times> ArcOperatorSet" where
  "find_max_indegree limited_indegree model s =
     (let s' = sort_sorted_idx model s in
      (first_candidate (arc_candidate limited_indegree model s') (sorted_idx s'), s'))"

definition find_max_indegree_tabu ::
  "bool \<Rightarrow> Model \<Rightarrow> ArcOperatorSet \<Rightarrow> OperatorTabuSet \<Rightarrow> Operator option \<times> ArcOperatorSet" where
  "find_max_indegree_tabu limited_indegree model s tabu_set =
     (let s' = sort_sorted_idx model s in
      (first_candidate_not_tabu (arc_candidate limited_indegree model s') tabu_set (sorted_idx s'),
       s'))"

text \<open>\<open>ArcOperatorSet::find_max\<close>, both overloads (lines 638 to 654).\<close>

definition ArcOperatorSet_find_max :: "Model \<Rightarrow> ArcOperatorSet \<Rightarrow> Operator option \<times> ArcOperatorSet" where
  "ArcOperatorSet_find_max model s =
     (if max_indegree s > 0 then find_max_indegree True model s
      else find_max_indegree False model s)"

definition ArcOperatorSet_find_max_tabu ::
  "Model \<Rightarrow> ArcOperatorSet \<Rightarrow> OperatorTabuSet \<Rightarrow> Operator option \<times> ArcOperatorSet" where
  "ArcOperatorSet_find_max_tabu model s tabu_set =
     (if max_indegree s > 0 then find_max_indegree_tabu True model s tabu_set
      else find_max_indegree_tabu False model s tabu_set)"

subsection \<open>ChangeNodeTypeSet (lines 803 to 931)\<close>

type_synonym FactorTypeVector = "(string \<times> FactorType) list"

record ChangeNodeTypeSet =
  nt_delta :: "real list"
  nt_valid_op :: "bool list"
  nt_sorted_idx :: "nat list"

text \<open>The constructor (lines 808 to 832); \<open>storage\<close> is the vector \<open>delta\<close> as allocated.\<close>

definition knock_out_node :: "Model \<Rightarrow> string \<times> FactorType \<Rightarrow> ChangeNodeTypeSet \<Rightarrow> ChangeNodeTypeSet" where
  "knock_out_node model nd s =
     s \<lparr> nt_delta := (nt_delta s)[indices_at model (fst nd) := lowest],
         nt_valid_op := (nt_valid_op s)[indices_at model (fst nd) := False] \<rparr>"

definition ChangeNodeTypeSet_new :: "(nat \<Rightarrow> real) \<Rightarrow> Model \<Rightarrow> FactorTypeVector \<Rightarrow> ChangeNodeTypeSet" where
  "ChangeNodeTypeSet_new storage model type_whitelist =
     (let n = num_nodes model;
          s0 = \<lparr> nt_delta = map storage [0..<n], nt_valid_op = replicate n True,
                 nt_sorted_idx = [] \<rparr>;
          s1 = fold (knock_out_node model) type_whitelist s0
      in s1 \<lparr> nt_sorted_idx := filter (\<lambda>i. nt_valid_op s1 ! i) [0..<n] \<rparr>)"

text \<open>\<open>find_max\<close> without a tabu set (lines 873 to 885).\<close>

definition ChangeNodeTypeSet_find_max ::
  "Model \<Rightarrow> ChangeNodeTypeSet \<Rightarrow> Operator option \<times> ChangeNodeTypeSet" where
  "ChangeNodeTypeSet_find_max model s =
     (let idx_max = max_element (take (num_nodes model) (nt_delta s));
          ty = node_type model idx_max
      in if nt_valid_op s ! idx_max
         then (Some (ChangeNodeType (name model idx_max) (FactorType_opposite ty)
                       (nt_delta s ! idx_max)), s)
         else (None, s))"

text \<open>
  \<open>find_max\<close> with a tabu set (lines 887 to 906).  The loop body builds the operator of
  the node and returns it when \<^verbatim>\<open>tabu_set.contains(op)\<close> holds (line 900).
\<close>

fun change_type_scan ::
  "Model \<Rightarrow> ChangeNodeTypeSet \<Rightarrow> OperatorTabuSet \<Rightarrow> nat list \<Rightarrow> Operator option" where
  "change_type_scan model s tabu_set [] = None"
| "change_type_scan model s tabu_set (idx_max # rest) =
     (let ty = node_type model idx_max;
          ope = ChangeNodeType (name model idx_max) (FactorType_opposite ty) (nt_delta s ! idx_max)
      in if tabu_contains tabu_set ope then Some ope
         else change_type_scan model s tabu_set rest)"

definition ChangeNodeTypeSet_find_max_tabu ::
  "Model \<Rightarrow> ChangeNodeTypeSet \<Rightarrow> OperatorTabuSet \<Rightarrow> Operator option \<times> ChangeNodeTypeSet" where
  "ChangeNodeTypeSet_find_max_tabu model s tabu_set =
     (let s' = s \<lparr> nt_sorted_idx :=
                     std_sort (sort_comparator (\<lambda>i. nt_delta s ! i)) (nt_sorted_idx s) \<rparr>
      in (change_type_scan model s' tabu_set (nt_sorted_idx s'), s'))"

subsection \<open>OperatorPool (lines 933 to 1030)\<close>

text \<open>The operator sets behind the \<open>OperatorSet\<close> interface.\<close>

datatype OperatorSet = ArcSet ArcOperatorSet | NodeTypeSet ChangeNodeTypeSet

fun OperatorSet_find_max :: "Model \<Rightarrow> OperatorSet \<Rightarrow> Operator option \<times> OperatorSet" where
  "OperatorSet_find_max model (ArcSet s) = map_prod id ArcSet (ArcOperatorSet_find_max model s)"
| "OperatorSet_find_max model (NodeTypeSet s) =
     map_prod id NodeTypeSet (ChangeNodeTypeSet_find_max model s)"

fun OperatorSet_find_max_tabu ::
  "Model \<Rightarrow> OperatorTabuSet \<Rightarrow> OperatorSet \<Rightarrow> Operator option \<times> OperatorSet" where
  "OperatorSet_find_max_tabu model tabu_set (ArcSet s) =
     map_prod id ArcSet (ArcOperatorSet_find_max_tabu model s tabu_set)"
| "OperatorSet_find_max_tabu model tabu_set (NodeTypeSet s) =
     map_prod id NodeTypeSet (ChangeNodeTypeSet_find_max_tabu model s tabu_set)"

record OperatorPool =
  pool_score :: Score
  local_cache :: LocalScoreCache
  m_op_sets :: "OperatorSet list"

text \<open>
  The loop of both \<open>OperatorPool::find_max\<close> overloads (lines 992 to 998 and 1012 to
  1018); \<open>query\<close> is the call \<^verbatim>\<open>(*it)->find_max(...)\<close>.  The result carries the operator
  sets as the calls left them.
\<close>

fun pool_scan ::
  "(OperatorSet \<Rightarrow> Operator option \<times> OperatorSet) \<Rightarrow> OperatorSet list \<Rightarrow> real \<Rightarrow> Operator option
     \<Rightarrow> Operator option \<times> OperatorSet list" where
  "pool_scan query [] max_delta max_op = (max_op, [])"
| "pool_scan query (op_set # rest) max_delta max_op =
     (let r = query op_set;
          continue = (case fst r of
                        Some new_op \<Rightarrow>
                          if op_delta new_op > max_delta
                          then pool_scan query rest (op_delta new_op) (Some new_op)
                          else pool_scan query rest max_delta max_op
                      | None \<Rightarrow> pool_scan query rest max_delta max_op)
      in (fst continue, snd r # snd continue))"

definition OperatorPool_find_max :: "Model \<Rightarrow> OperatorPool \<Rightarrow> Operator option \<times> OperatorPool" where
  "OperatorPool_find_max model pool =
     (let r = pool_scan (OperatorSet_find_max model) (m_op_sets pool) lowest None
      in (fst r, pool \<lparr> m_op_sets := snd r \<rparr>))"

definition OperatorPool_find_max_tabu ::
  "Model \<Rightarrow> OperatorPool \<Rightarrow> OperatorTabuSet \<Rightarrow> Operator option \<times> OperatorPool" where
  "OperatorPool_find_max_tabu model pool tabu_set =
     (if tabu_empty tabu_set then OperatorPool_find_max model pool
      else (let r = pool_scan (OperatorSet_find_max_tabu model tabu_set) (m_op_sets pool) lowest None
            in (fst r, pool \<lparr> m_op_sets := snd r \<rparr>)))"

subsection \<open>Assumptions on the collaborators\<close>

text \<open>
  The graph reports an arc exactly when the source is among the parents of the target.
\<close>

definition edges_are_parents :: "Model \<Rightarrow> bool" where
  "edges_are_parents model =
     (\<forall>s t. has_edge model s t \<longleftrightarrow> s \<in> set (parent_indices model t))"

text \<open>
  The score of a node does not depend on the order in which its parents are listed.
\<close>

definition score_order_independent :: "Score \<Rightarrow> Model \<Rightarrow> bool" where
  "score_order_independent sc model =
     (\<forall>v ps qs. mset ps = mset qs \<longrightarrow> local_score sc model v ps = local_score sc model v qs)"

subsection \<open>Concrete inputs\<close>

definition example_hasher :: "string \<Rightarrow> 64 word" where
  "example_hasher str = of_nat (length str)"

definition example_ft_value :: "FactorType \<Rightarrow> 64 word" where
  "example_ft_value ty = (case ty of LinearGaussianCPD \<Rightarrow> 0 | CKDE \<Rightarrow> 1)"

text \<open>Two nodes \<open>a\<close> (index 0) and \<open>b\<close> (index 1) and no arc.\<close>

definition two_nodes :: Model where
  "two_nodes = \<lparr> num_nodes = 2,
      name = (\<lambda>i. if i = 0 then ''a'' else ''b''),
      index = (\<lambda>k. if k = ''a'' then 0 else 1),
      indices = [''a'' \<mapsto> 0, ''b'' \<mapsto> 1],
      parent_indices = (\<lambda>v. []),
      num_parents = (\<lambda>v. 0),
      has_edge = (\<lambda>s t. False),
      can_add_edge = (\<lambda>s t. s \<noteq> t),
      can_flip_edge = (\<lambda>s t. False),
      node_type = (\<lambda>v. LinearGaussianCPD) \<rparr>"

text \<open>The same nodes with the single arc \<open>b \<rightarrow> a\<close>, which may be flipped.\<close>

definition arc_b_a :: Model where
  "arc_b_a = two_nodes \<lparr> parent_indices := (\<lambda>v. if v = 0 then [1] else []),
      num_parents := (\<lambda>v. if v = 0 then 1 else 0),
      has_edge := (\<lambda>s t. s = 1 \<and> t = 0),
      can_add_edge := (\<lambda>s t. False),
      can_flip_edge := (\<lambda>s t. s = 1 \<and> t = 0) \<rparr>"

text \<open>A score that counts the parents it is given.\<close>

definition count_score :: Score where
  "count_score = \<lparr> local_score = (\<lambda>m v ps. real (length ps)),
      local_score_node = (\<lambda>m v. real (length (parent_indices m v))) \<rparr>"

definition zero_storage :: "nat \<Rightarrow> nat \<Rightarrow> real" where
  "zero_storage i j = 0"

definition zero_vector_storage :: "nat \<Rightarrow> real" where
  "zero_vector_storage i = 0"

text \<open>Storage that held the value 1 everywhere before it was allocated.\<close>

definition stale_storage :: "nat \<Rightarrow> real" where
  "stale_storage i = 1"

text \<open>The model \<open>two_nodes\<close> cut down to its first node.\<close>

definition one_node :: Model where
  "one_node = two_nodes \<lparr> num_nodes := 1 \<rparr>"

text \<open>
  An arc operator set built with empty lists, and a node type set built with an empty
  whitelist, both on zeroed storage.
\<close>

definition example_arcs :: "Model \<Rightarrow> int \<Rightarrow> ArcOperatorSet" where
  "example_arcs m k = ArcOperatorSet_new zero_storage m count_score [] [] k"

definition example_node_types :: "Model \<Rightarrow> ChangeNodeTypeSet" where
  "example_node_types m = ChangeNodeTypeSet_new zero_vector_storage m []"

text \<open>
  A score that is 0 for a node without parents and \<open>lowest\<close> otherwise, the arc
  operator set of the two-node model after \<open>cache_scores\<close> under this score, and a pool
  around given operator sets.
\<close>

definition lowest_score :: Score where
  "lowest_score = \<lparr> local_score = (\<lambda>m v ps. if ps = [] then 0 else lowest),
      local_score_node = (\<lambda>m v. 0) \<rparr>"

definition lowest_arcs :: ArcOperatorSet where
  "lowest_arcs =
     (let fresh = ArcOperatorSet_new zero_storage two_nodes lowest_score [] [] 0 in
      case ArcOperatorSet_cache_scores two_nodes
             (cache_local_scores two_nodes lowest_score
                (LocalScoreCache_new zero_vector_storage two_nodes))
             fresh of
        Some s \<Rightarrow> s
      | None \<Rightarrow> fresh)"

definition example_pool :: "OperatorSet list \<Rightarrow> OperatorPool" where
  "example_pool sets = \<lparr> pool_score = count_score,
      local_cache = LocalScoreCache_new zero_vector_storage two_nodes, m_op_sets = sets \<rparr>"

text \<open>The local score cache of a model under \<open>count_score\<close>.\<close>

definition example_cache :: "Model \<Rightarrow> LocalScoreCache" where
  "example_cache m = cache_local_scores m count_score (LocalScoreCache_new zero_vector_storage m)"

text \<open>The operator set that \<open>cache_scores\<close> leaves, where it returns.\<close>

definition after_cache_scores :: "Model \<Rightarrow> LocalScoreCache \<Rightarrow> ArcOperatorSet \<Rightarrow> ArcOperatorSet" where
  "after_cache_scores m c s =
     (case ArcOperatorSet_cache_scores m c s of Some s' \<Rightarrow> s' | None \<Rightarrow> s)"

text \<open>The operator set that \<open>update_node_arcs_scores\<close> leaves, where it returns.\<close>

definition after_update_node_arcs_scores ::
  "Model \<Rightarrow> LocalScoreCache \<Rightarrow> ArcOperatorSet \<Rightarrow> string \<Rightarrow> ArcOperatorSet" where
  "after_update_node_arcs_scores m c s dest_node =
     (case update_node_arcs_scores m c s dest_node of Some s' \<Rightarrow> s' | None \<Rightarrow> s)"

text \<open>
  The model \<open>arc_b_a\<close> with the indices of its two nodes exchanged: the single arc is
  \<open>a \<rightarrow> b\<close>, from index 0 to index 1.
\<close>

definition arc_a_b :: Model where
  "arc_a_b = two_nodes \<lparr> parent_indices := (\<lambda>v. if v = 1 then [0] else []),
      num_parents := (\<lambda>v. if v = 1 then 1 else 0),
      has_edge := (\<lambda>s t. s = 0 \<and> t = 1),
      can_add_edge := (\<lambda>s t. False),
      can_flip_edge := (\<lambda>s t. s = 0 \<and> t = 1) \<rparr>"

section \<open>Properties of the operator engine\<close>

subsection \<open>Operators: opposite, equality, hash\<close>

lemma FactorType_opposite_involution: "FactorType_opposite (FactorType_opposite ty) = ty"
  by (cases ty) simp_all

text \<open>
  Claim C6.  \<open>opposite\<close> maps \<open>AddArc(s, t, \<Delta>)\<close> to \<open>RemoveArc(s, t, -\<Delta>)\<close>,
  \<open>RemoveArc(s, t, \<Delta>)\<close> to \<open>AddArc(s, t, -\<Delta>)\<close>, \<open>FlipArc(s, t, \<Delta>)\<close> to
  \<open>FlipArc(t, s, -\<Delta>)\<close> and \<open>ChangeNodeType(n, T, \<Delta>)\<close> to
  \<open>ChangeNodeType(n, opposite(T), -\<Delta>)\<close>; the opposite of the opposite of an operator
  is equal to the operator under the tabu set's equality and carries the same delta.
  The \<open>AddArc\<close> row rests on \<open>AddArc_opposite\<close>, and the last two statements on the
  factor type's flip being its own inverse; both are modelled from the spec.
\<close>

theorem opposite_table_and_double_opposite:
  "opposite (AddArc s t d) = RemoveArc s t (- d)
   \<and> opposite (RemoveArc s t d) = AddArc s t (- d)
   \<and> opposite (FlipArc s t d) = FlipArc t s (- d)
   \<and> opposite (ChangeNodeType n ty d) = ChangeNodeType n (FactorType_opposite ty) (- d)
   \<and> OperatorPtrEqual (opposite (opposite ope)) ope
   \<and> op_delta (opposite (opposite ope)) = op_delta ope"
  by (cases ope) (simp_all add: AddArc_opposite_def FactorType_opposite_involution)

lemma OperatorPtrEqual_iff:
  "OperatorPtrEqual a b \<longleftrightarrow>
     (\<exists>s t d d'. a = AddArc s t d \<and> b = AddArc s t d')
   \<or> (\<exists>s t d d'. a = RemoveArc s t d \<and> b = RemoveArc s t d')
   \<or> (\<exists>s t d d'. a = FlipArc s t d \<and> b = FlipArc s t d')
   \<or> (\<exists>n ty d d'. a = ChangeNodeType n ty d \<and> b = ChangeNodeType n ty d')"
  by (cases a; cases b) auto

text \<open>
  Claim C7.  Two operators are equal for the tabu set exactly when they are of the same
  kind and agree on \<open>(source, target)\<close>, for the arc operators, or on \<open>(node, new type)\<close>,
  for \<open>ChangeNodeType\<close>; the two deltas are arbitrary.  Operators that are equal in this
  sense have the same hash, whatever the string hash and the integer value of a factor
  type are.
\<close>

theorem tabu_identity_and_hash:
  "(OperatorPtrEqual a b \<longleftrightarrow>
       (\<exists>s t d d'. a = AddArc s t d \<and> b = AddArc s t d')
     \<or> (\<exists>s t d d'. a = RemoveArc s t d \<and> b = RemoveArc s t d')
     \<or> (\<exists>s t d d'. a = FlipArc s t d \<and> b = FlipArc s t d')
     \<or> (\<exists>n ty d d'. a = ChangeNodeType n ty d \<and> b = ChangeNodeType n ty d'))
   \<and> (OperatorPtrEqual a b \<longrightarrow> HashOperator hasher ft_value a = HashOperator hasher ft_value b)"
proof
  show "OperatorPtrEqual a b \<longleftrightarrow>
       (\<exists>s t d d'. a = AddArc s t d \<and> b = AddArc s t d')
     \<or> (\<exists>s t d d'. a = RemoveArc s t d \<and> b = RemoveArc s t d')
     \<or> (\<exists>s t d d'. a = FlipArc s t d \<and> b = FlipArc s t d')
     \<or> (\<exists>n ty d d'. a = ChangeNodeType n ty d \<and> b = ChangeNodeType n ty d')"
    by (rule OperatorPtrEqual_iff)
  show "OperatorPtrEqual a b \<longrightarrow> HashOperator hasher ft_value a = HashOperator hasher ft_value b"
    by (cases a; cases b) auto
qed

theorem tabu_identity_and_hash_witness:
  "OperatorPtrEqual (FlipArc ''a'' ''b'' 1) (FlipArc ''a'' ''b'' 2)
   \<and> HashOperator example_hasher example_ft_value (FlipArc ''a'' ''b'' 1)
       = HashOperator example_hasher example_ft_value (FlipArc ''a'' ''b'' 2)
   \<and> OperatorPtrEqual (ChangeNodeType ''a'' CKDE 1) (ChangeNodeType ''a'' CKDE (- 3))
   \<and> HashOperator example_hasher example_ft_value (ChangeNodeType ''a'' CKDE 1)
       = HashOperator example_hasher example_ft_value (ChangeNodeType ''a'' CKDE (- 3))"
proof -
  have e1: "OperatorPtrEqual (FlipArc ''a'' ''b'' 1) (FlipArc ''a'' ''b'' 2)" by simp
  have e2: "OperatorPtrEqual (ChangeNodeType ''a'' CKDE 1) (ChangeNodeType ''a'' CKDE (- 3))"
    by simp
  note h1 = tabu_identity_and_hash [of "FlipArc ''a'' ''b'' 1" "FlipArc ''a'' ''b'' 2"
      example_hasher example_ft_value, THEN conjunct2, THEN mp, OF e1]
  note h2 = tabu_identity_and_hash [of "ChangeNodeType ''a'' CKDE 1"
      "ChangeNodeType ''a'' CKDE (- 3)" example_hasher example_ft_value,
      THEN conjunct2, THEN mp, OF e2]
  from e1 h1 e2 h2 show ?thesis by blast
qed

subsection \<open>The comparator of the in-place sorts\<close>

text \<open>
  Claim C10.  The claim asks for a strict weak ordering, which is irreflexive.  The
  comparator \<^verbatim>\<open>delta_ptr[i1] >= delta_ptr[i2]\<close> holds of every index and itself.
\<close>

theorem sort_comparator_reflexive: "sort_comparator delta_at i i"
  by (simp add: sort_comparator_def)

subsection \<open>The search for the best operator of an arc operator set\<close>

lemma upt_2: "[0..<2] = [0, 1]"
  by (simp add: upt_rec)

lemma set_insert_sorted: "set (insert_sorted cmp x xs) = insert x (set xs)"
  by (induction xs) auto

lemma set_std_sort: "set (std_sort cmp xs) = set xs"
  by (induction xs) (auto simp: set_insert_sorted)

lemma std_sort_Nil_iff: "std_sort cmp xs = [] \<longleftrightarrow> xs = []"
  using set_std_sort [of cmp xs] by (metis set_empty)

lemma arc_candidate_sorted:
  "arc_candidate ltd m (sort_sorted_idx m s) idx = arc_candidate ltd m s idx"
  by (simp add: arc_candidate_def sort_sorted_idx_def Let_def)

lemma set_sorted_idx_sorted: "set (sorted_idx (sort_sorted_idx m s)) = set (sorted_idx s)"
  by (simp add: sort_sorted_idx_def set_std_sort)


lemma first_candidate_not_tabu_Some:
  "first_candidate_not_tabu build tabu_set xs = Some ope
   \<Longrightarrow> (\<exists>idx \<in> set xs. build idx = Some ope) \<and> \<not> tabu_contains tabu_set ope"
  by (induction xs) (auto split: option.splits if_splits)

lemma first_candidate_not_tabu_None:
  "(\<And>idx ope. idx \<in> set xs \<Longrightarrow> build idx = Some ope \<Longrightarrow> tabu_contains tabu_set ope)
   \<Longrightarrow> first_candidate_not_tabu build tabu_set xs = None"
  by (induction xs) (auto split: option.splits)


lemma find_max_indegree_tabu_Some:
  "fst (find_max_indegree_tabu ltd m s tabu_set) = Some ope
   \<Longrightarrow> (\<exists>idx \<in> set (sorted_idx s). arc_candidate ltd m s idx = Some ope)
       \<and> \<not> tabu_contains tabu_set ope"
  unfolding find_max_indegree_tabu_def Let_def fst_conv
  by (drule first_candidate_not_tabu_Some) (simp add: arc_candidate_sorted set_sorted_idx_sorted)

lemma ArcOperatorSet_find_max_tabu_not_tabu:
  "fst (ArcOperatorSet_find_max_tabu m s tabu_set) = Some ope \<Longrightarrow> \<not> tabu_contains tabu_set ope"
  by (auto simp: ArcOperatorSet_find_max_tabu_def dest: find_max_indegree_tabu_Some split: if_splits)




lemma arc_candidate_unlimited_num_parents:
  "arc_candidate False (m \<lparr> num_parents := np \<rparr>) s idx = arc_candidate False m s idx"
  by (simp add: arc_candidate_def Let_def)



lemmas example_models = two_nodes_def arc_b_a_def one_node_def count_score_def zero_storage_def
  zero_vector_storage_def

lemmas constructor_simps = ArcOperatorSet_new_def Let_def knock_out_diagonal_def knock_out_one_def
  knock_out_both_def coeff_set_def indices_at_def upt_2

lemma example_arcs_one_node: "sorted_idx (example_arcs one_node k) = []"
  by (simp add: example_arcs_def example_models constructor_simps)

lemma example_arcs_two_nodes [simp]:
  "sorted_idx (example_arcs two_nodes k) = [2, 1]"
  "delta (example_arcs two_nodes k) i j = (if i = j \<and> i < 2 then lowest else 0)"
  "max_indegree (example_arcs two_nodes k) = k"
  by (auto simp add: example_arcs_def example_models constructor_simps)

lemma example_arcs_arc_b_a [simp]:
  "sorted_idx (example_arcs arc_b_a k) = [2, 1]"
  "delta (example_arcs arc_b_a k) i j = (if i = j \<and> i < 2 then lowest else 0)"
  "max_indegree (example_arcs arc_b_a k) = k"
  by (auto simp add: example_arcs_def example_models constructor_simps)

lemma two_nodes_simps [simp]:
  "num_nodes two_nodes = 2" "name two_nodes 0 = ''a''" "name two_nodes (Suc 0) = ''b''"
  "has_edge two_nodes i j = False" "can_add_edge two_nodes i j = (i \<noteq> j)"
  "can_flip_edge two_nodes i j = False" "num_parents two_nodes i = 0"
  "node_type two_nodes i = LinearGaussianCPD"
  by (simp_all add: two_nodes_def)

lemma arc_b_a_simps [simp]:
  "num_nodes arc_b_a = 2" "name arc_b_a 0 = ''a''" "name arc_b_a (Suc 0) = ''b''"
  "has_edge arc_b_a i j = (i = 1 \<and> j = 0)" "can_add_edge arc_b_a i j = False"
  "can_flip_edge arc_b_a i j = (i = 1 \<and> j = 0)" "num_parents arc_b_a i = (if i = 0 then 1 else 0)"
  by (simp_all add: arc_b_a_def two_nodes_def)

lemma candidates_two_nodes:
  "arc_candidate ltd two_nodes (example_arcs two_nodes k) 2
     = (if ltd \<and> k \<le> 0 then None else Some (AddArc ''a'' ''b'' 0))"
  "arc_candidate ltd two_nodes (example_arcs two_nodes k) (Suc 0)
     = (if ltd \<and> k \<le> 0 then None else Some (AddArc ''b'' ''a'' 0))"
  by (simp_all add: arc_candidate_def Let_def)

lemma sorted_two_nodes:
  "sorted_idx (sort_sorted_idx two_nodes (example_arcs two_nodes k)) = [2, 1]"
  by (simp add: sort_sorted_idx_def sort_comparator_def delta_ptr_def)







subsection \<open>The node type set and the tabu set\<close>

lemma example_node_types_two_nodes [simp]:
  "nt_delta (example_node_types two_nodes) = [0, 0]"
  "nt_valid_op (example_node_types two_nodes) = [True, True]"
  "nt_sorted_idx (example_node_types two_nodes) = [0, 1]"
  by (simp_all add: example_node_types_def ChangeNodeTypeSet_new_def Let_def upt_2
      zero_vector_storage_def replicate_Suc numeral_2_eq_2)

text \<open>
  Claim C1.  The claim wants no \<open>find_max\<close> with a tabu set to return an operator of the
  tabu set.  On the two-node model with the tabu set \<open>{ChangeNodeType(a, CKDE)}\<close>,
  \<open>ChangeNodeTypeSet::find_max\<close> returns exactly that operator, although the operator
  for node \<open>b\<close> is not tabu, and so does the pool that holds this operator set.
\<close>

theorem change_type_find_max_returns_tabu_operator:
  "tabu_contains [ChangeNodeType ''a'' CKDE 5] (ChangeNodeType ''a'' CKDE 0)
   \<and> \<not> tabu_contains [ChangeNodeType ''a'' CKDE 5] (ChangeNodeType ''b'' CKDE 0)
   \<and> fst (ChangeNodeTypeSet_find_max_tabu two_nodes (example_node_types two_nodes)
            [ChangeNodeType ''a'' CKDE 5]) = Some (ChangeNodeType ''a'' CKDE 0)
   \<and> fst (OperatorPool_find_max_tabu two_nodes
            \<lparr> pool_score = count_score,
              local_cache = LocalScoreCache_new zero_vector_storage two_nodes,
              m_op_sets = [NodeTypeSet (example_node_types two_nodes)] \<rparr>
            [ChangeNodeType ''a'' CKDE 5]) = Some (ChangeNodeType ''a'' CKDE 0)"
proof -
  have lw: "lowest < 0" by (simp add: lowest_def)
  show ?thesis
    using lw
    by (simp add: tabu_contains_def ChangeNodeTypeSet_find_max_tabu_def Let_def
        sort_comparator_def OperatorPool_find_max_tabu_def tabu_empty_def)
qed

subsection \<open>The constructor of ArcOperatorSet\<close>

text \<open>
  Claim C3.  A caller that follows the declaration passes the whitelist third and the
  blacklist fourth.  With the whitelist \<open>{a \<rightarrow> b}\<close> and an empty blacklist the cell
  \<open>(b, a)\<close> stays valid and \<open>sorted_idx\<close> holds its index; with an empty whitelist and the
  blacklist \<open>{a \<rightarrow> b}\<close> both cells are knocked out.
\<close>

theorem constructor_declared_order_swaps_lists:
  "valid_op (ArcOperatorSet_new zero_storage two_nodes count_score [(''a'', ''b'')] [] 0) 1 0
   \<and> \<not> valid_op (ArcOperatorSet_new zero_storage two_nodes count_score [(''a'', ''b'')] [] 0) 0 1
   \<and> sorted_idx (ArcOperatorSet_new zero_storage two_nodes count_score [(''a'', ''b'')] [] 0) = [1]
   \<and> \<not> valid_op (ArcOperatorSet_new zero_storage two_nodes count_score [] [(''a'', ''b'')] 0) 0 1
   \<and> \<not> valid_op (ArcOperatorSet_new zero_storage two_nodes count_score [] [(''a'', ''b'')] 0) 1 0
   \<and> sorted_idx (ArcOperatorSet_new zero_storage two_nodes count_score [] [(''a'', ''b'')] 0) = []"
  by (simp add: example_models constructor_simps)

subsection \<open>The fresh local score cache\<close>

lemma fold_list_update_upt:
  "n \<le> length v \<Longrightarrow> fold (\<lambda>i v. v[i := f i]) [0..<n] v = map f [0..<n] @ drop n v"
proof (induction n)
  case 0
  then show ?case by simp
next
  case (Suc n)
  then have "fold (\<lambda>i v. v[i := f i]) [0..<Suc n] v = (map f [0..<n] @ drop n v)[n := f n]"
    by simp
  also have "\<dots> = map f [0..<n] @ (drop n v)[0 := f n]"
    by (simp add: list_update_append)
  also have "(drop n v)[0 := f n] = f n # drop (Suc n) v"
    using Suc.prems by (simp add: Cons_nth_drop_Suc [symmetric] Suc_le_lessD)
  finally show ?case by simp
qed

lemma sum_list_all_zero:
  "(\<And>x. x \<in> set xs \<Longrightarrow> f x = (0::real)) \<Longrightarrow> sum_list (map f xs) = 0"
  by (induction xs) auto

text \<open>
  Claim C8, as amended.  A freshly constructed \<open>LocalScoreCache\<close> has one entry per node
  and entry \<open>i\<close> is what the storage held at \<open>i\<close>; the entries and their sum are zero
  when the storage was zero.  After \<open>cache_local_scores\<close> entry \<open>i\<close> is
  \<open>score.local_score(model, i)\<close>.
\<close>

theorem fresh_cache_holds_storage:
  "length (m_local_score (LocalScoreCache_new storage m)) = num_nodes m
   \<and> (\<forall>i < num_nodes m. cached_local_score (LocalScoreCache_new storage m) i = storage i)
   \<and> ((\<forall>i < num_nodes m. storage i = 0) \<longrightarrow>
        (\<forall>i < num_nodes m. cached_local_score (LocalScoreCache_new storage m) i = 0)
        \<and> cache_sum (LocalScoreCache_new storage m) = 0)
   \<and> (\<forall>i < num_nodes m.
        cached_local_score (cache_local_scores m sc (LocalScoreCache_new storage m)) i
          = local_score_node sc m i)"
proof (intro conjI allI impI)
  show "length (m_local_score (LocalScoreCache_new storage m)) = num_nodes m"
    by (simp add: LocalScoreCache_new_def)
  show "cached_local_score (LocalScoreCache_new storage m) i = storage i" if "i < num_nodes m" for i
    using that by (simp add: LocalScoreCache_new_def cached_local_score_def)
  assume z: "\<forall>i < num_nodes m. storage i = 0"
  show "cached_local_score (LocalScoreCache_new storage m) i = 0" if "i < num_nodes m" for i
    using that z by (simp add: LocalScoreCache_new_def cached_local_score_def)
  from z have "sum_list (map storage [0..<num_nodes m]) = 0"
    by (intro sum_list_all_zero) simp
  then show "cache_sum (LocalScoreCache_new storage m) = 0"
    by (simp add: cache_sum_def LocalScoreCache_new_def)
next
  fix i assume "i < num_nodes m"
  then show "cached_local_score (cache_local_scores m sc (LocalScoreCache_new storage m)) i
          = local_score_node sc m i"
    by (simp add: cache_local_scores_def LocalScoreCache_new_def cached_local_score_def
        fold_list_update_upt)
qed

text \<open>
  Claim C8, counterexample.  The claim as stated fails on storage that is not zero: the fresh cache of the two-node
  model then reads 1 at index 0 and sums to 2.
\<close>

theorem fresh_cache_not_zero:
  "cached_local_score (LocalScoreCache_new stale_storage two_nodes) 0 = 1
   \<and> cache_sum (LocalScoreCache_new stale_storage two_nodes) = 2"
  by (simp add: LocalScoreCache_new_def cached_local_score_def cache_sum_def stale_storage_def upt_2)

theorem fresh_cache_holds_storage_witness:
  "0 < num_nodes two_nodes
   \<and> cached_local_score (LocalScoreCache_new stale_storage two_nodes) 0 = stale_storage 0
   \<and> cached_local_score (LocalScoreCache_new zero_vector_storage two_nodes) 0 = 0
   \<and> cache_sum (LocalScoreCache_new zero_vector_storage two_nodes) = 0
   \<and> cached_local_score
       (cache_local_scores two_nodes count_score (LocalScoreCache_new stale_storage two_nodes)) 0
       = local_score_node count_score two_nodes 0"
proof -
  have n: "0 < num_nodes two_nodes" by simp
  have z: "\<forall>i < num_nodes two_nodes. zero_vector_storage i = 0"
    by (simp add: zero_vector_storage_def)
  from fresh_cache_holds_storage [of stale_storage two_nodes count_score] n
  have a: "cached_local_score (LocalScoreCache_new stale_storage two_nodes) 0 = stale_storage 0"
    and d: "cached_local_score
       (cache_local_scores two_nodes count_score (LocalScoreCache_new stale_storage two_nodes)) 0
       = local_score_node count_score two_nodes 0"
    by blast+
  from fresh_cache_holds_storage [of zero_vector_storage two_nodes count_score] n z
  have b: "cached_local_score (LocalScoreCache_new zero_vector_storage two_nodes) 0 = 0"
    and c: "cache_sum (LocalScoreCache_new zero_vector_storage two_nodes) = 0"
    by blast+
  from n a b c d show ?thesis by blast
qed

subsection \<open>The pool picks the best operator above \<open>lowest\<close>\<close>

lemma pool_scan_result:
  "(fst (pool_scan query sets max_delta max_op) = max_op
      \<and> (\<forall>i < length sets. \<forall>ope. fst (query (sets ! i)) = Some ope \<longrightarrow> op_delta ope \<le> max_delta))
   \<or> (\<exists>i < length sets. \<exists>ope.
         fst (pool_scan query sets max_delta max_op) = Some ope
         \<and> fst (query (sets ! i)) = Some ope \<and> max_delta < op_delta ope
         \<and> (\<forall>j < length sets. \<forall>ope'. fst (query (sets ! j)) = Some ope' \<longrightarrow> op_delta ope' \<le> op_delta ope)
         \<and> (\<forall>j < i. \<forall>ope'. fst (query (sets ! j)) = Some ope' \<longrightarrow> op_delta ope' < op_delta ope))"
proof (induction sets arbitrary: max_delta max_op)
  case Nil
  then show ?case by simp
next
  case (Cons x xs)
  show ?case
  proof (cases "fst (query x)")
    case None
    then have eq: "fst (pool_scan query (x # xs) max_delta max_op) = fst (pool_scan query xs max_delta max_op)"
      by (simp add: Let_def)
    from Cons.IH [of max_delta max_op] show ?thesis
    proof
      assume "fst (pool_scan query xs max_delta max_op) = max_op \<and>
        (\<forall>i<length xs. \<forall>ope. fst (query (xs ! i)) = Some ope \<longrightarrow> op_delta ope \<le> max_delta)"
      with None eq show ?thesis
        by (auto simp: All_less_Suc2)
    next
      assume "\<exists>i<length xs. \<exists>ope. fst (pool_scan query xs max_delta max_op) = Some ope \<and>
        fst (query (xs ! i)) = Some ope \<and> max_delta < op_delta ope \<and>
        (\<forall>j<length xs. \<forall>ope'. fst (query (xs ! j)) = Some ope' \<longrightarrow> op_delta ope' \<le> op_delta ope) \<and>
        (\<forall>j<i. \<forall>ope'. fst (query (xs ! j)) = Some ope' \<longrightarrow> op_delta ope' < op_delta ope)"
      then obtain i ope where i: "i < length xs"
        and r: "fst (pool_scan query xs max_delta max_op) = Some ope"
        and q: "fst (query (xs ! i)) = Some ope" and d: "max_delta < op_delta ope"
        and le: "\<forall>j<length xs. \<forall>ope'. fst (query (xs ! j)) = Some ope' \<longrightarrow> op_delta ope' \<le> op_delta ope"
        and lt: "\<forall>j<i. \<forall>ope'. fst (query (xs ! j)) = Some ope' \<longrightarrow> op_delta ope' < op_delta ope"
        by blast
      have "Suc i < length (x # xs)" using i by simp
      moreover have "fst (pool_scan query (x # xs) max_delta max_op) = Some ope"
        using eq r by simp
      moreover have "fst (query ((x # xs) ! Suc i)) = Some ope" using q by simp
      moreover have "\<forall>j<length (x # xs). \<forall>ope'. fst (query ((x # xs) ! j)) = Some ope'
          \<longrightarrow> op_delta ope' \<le> op_delta ope"
        using le None by (simp add: All_less_Suc2)
      moreover have "\<forall>j<Suc i. \<forall>ope'. fst (query ((x # xs) ! j)) = Some ope'
          \<longrightarrow> op_delta ope' < op_delta ope"
        using lt None by (simp add: All_less_Suc2)
      ultimately show ?thesis using d by blast
    qed
  next
    case (Some new_op)
    show ?thesis
    proof (cases "op_delta new_op > max_delta")
      case True
      with Some have eq: "fst (pool_scan query (x # xs) max_delta max_op)
          = fst (pool_scan query xs (op_delta new_op) (Some new_op))"
        by (simp add: Let_def)
      from Cons.IH [of "op_delta new_op" "Some new_op"] show ?thesis
      proof
        assume a: "fst (pool_scan query xs (op_delta new_op) (Some new_op)) = Some new_op \<and>
          (\<forall>i<length xs. \<forall>ope. fst (query (xs ! i)) = Some ope \<longrightarrow> op_delta ope \<le> op_delta new_op)"
        have "0 < length (x # xs)" by simp
        moreover have "fst (pool_scan query (x # xs) max_delta max_op) = Some new_op"
          using eq a by simp
        moreover have "fst (query ((x # xs) ! 0)) = Some new_op" using Some by simp
        moreover have "\<forall>j<length (x # xs). \<forall>ope'. fst (query ((x # xs) ! j)) = Some ope'
            \<longrightarrow> op_delta ope' \<le> op_delta new_op"
          using a Some by (simp add: All_less_Suc2)
        moreover have "\<forall>j<(0::nat). \<forall>ope'. fst (query ((x # xs) ! j)) = Some ope'
            \<longrightarrow> op_delta ope' < op_delta new_op"
          by simp
        ultimately show ?thesis using True by blast
      next
        assume "\<exists>i<length xs. \<exists>ope.
          fst (pool_scan query xs (op_delta new_op) (Some new_op)) = Some ope \<and>
          fst (query (xs ! i)) = Some ope \<and> op_delta new_op < op_delta ope \<and>
          (\<forall>j<length xs. \<forall>ope'. fst (query (xs ! j)) = Some ope' \<longrightarrow> op_delta ope' \<le> op_delta ope) \<and>
          (\<forall>j<i. \<forall>ope'. fst (query (xs ! j)) = Some ope' \<longrightarrow> op_delta ope' < op_delta ope)"
        then obtain i ope where i: "i < length xs"
          and r: "fst (pool_scan query xs (op_delta new_op) (Some new_op)) = Some ope"
          and q: "fst (query (xs ! i)) = Some ope" and d: "op_delta new_op < op_delta ope"
          and le: "\<forall>j<length xs. \<forall>ope'. fst (query (xs ! j)) = Some ope' \<longrightarrow> op_delta ope' \<le> op_delta ope"
          and lt: "\<forall>j<i. \<forall>ope'. fst (query (xs ! j)) = Some ope' \<longrightarrow> op_delta ope' < op_delta ope"
          by blast
        have "Suc i < length (x # xs)" using i by simp
        moreover have "fst (pool_scan query (x # xs) max_delta max_op) = Some ope"
          using eq r by simp
        moreover have "fst (query ((x # xs) ! Suc i)) = Some ope" using q by simp
        moreover have "max_delta < op_delta ope" using True d by simp
        moreover have "\<forall>j<length (x # xs). \<forall>ope'. fst (query ((x # xs) ! j)) = Some ope'
            \<longrightarrow> op_delta ope' \<le> op_delta ope"
          using le Some d by (simp add: All_less_Suc2)
        moreover have "\<forall>j<Suc i. \<forall>ope'. fst (query ((x # xs) ! j)) = Some ope'
            \<longrightarrow> op_delta ope' < op_delta ope"
          using lt Some d by (simp add: All_less_Suc2)
        ultimately show ?thesis by blast
      qed
    next
      case False
      with Some have eq: "fst (pool_scan query (x # xs) max_delta max_op)
          = fst (pool_scan query xs max_delta max_op)"
        by (simp add: Let_def)
      from False have nd: "op_delta new_op \<le> max_delta" by simp
      from Cons.IH [of max_delta max_op] show ?thesis
      proof
        assume "fst (pool_scan query xs max_delta max_op) = max_op \<and>
          (\<forall>i<length xs. \<forall>ope. fst (query (xs ! i)) = Some ope \<longrightarrow> op_delta ope \<le> max_delta)"
        with Some eq nd show ?thesis
          by (auto simp: All_less_Suc2)
      next
        assume "\<exists>i<length xs. \<exists>ope. fst (pool_scan query xs max_delta max_op) = Some ope \<and>
          fst (query (xs ! i)) = Some ope \<and> max_delta < op_delta ope \<and>
          (\<forall>j<length xs. \<forall>ope'. fst (query (xs ! j)) = Some ope' \<longrightarrow> op_delta ope' \<le> op_delta ope) \<and>
          (\<forall>j<i. \<forall>ope'. fst (query (xs ! j)) = Some ope' \<longrightarrow> op_delta ope' < op_delta ope)"
        then obtain i ope where i: "i < length xs"
          and r: "fst (pool_scan query xs max_delta max_op) = Some ope"
          and q: "fst (query (xs ! i)) = Some ope" and d: "max_delta < op_delta ope"
          and le: "\<forall>j<length xs. \<forall>ope'. fst (query (xs ! j)) = Some ope' \<longrightarrow> op_delta ope' \<le> op_delta ope"
          and lt: "\<forall>j<i. \<forall>ope'. fst (query (xs ! j)) = Some ope' \<longrightarrow> op_delta ope' < op_delta ope"
          by blast
        have "Suc i < length (x # xs)" using i by simp
        moreover have "fst (pool_scan query (x # xs) max_delta max_op) = Some ope"
          using eq r by simp
        moreover have "fst (query ((x # xs) ! Suc i)) = Some ope" using q by simp
        moreover have "\<forall>j<length (x # xs). \<forall>ope'. fst (query ((x # xs) ! j)) = Some ope'
            \<longrightarrow> op_delta ope' \<le> op_delta ope"
          using le Some d nd by (simp add: All_less_Suc2)
        moreover have "\<forall>j<Suc i. \<forall>ope'. fst (query ((x # xs) ! j)) = Some ope'
            \<longrightarrow> op_delta ope' < op_delta ope"
          using lt Some d nd by (simp add: All_less_Suc2)
        ultimately show ?thesis using d by blast
      qed
    qed
  qed
qed


lemma pool_scan_None_iff:
  "fst (pool_scan query sets lowest None) = None \<longleftrightarrow>
     (\<forall>i < length sets. \<forall>ope. fst (query (sets ! i)) = Some ope \<longrightarrow> op_delta ope \<le> lowest)"
  using pool_scan_result [of query sets lowest None] by (auto simp: not_less [symmetric])

lemma pool_scan_Some:
  assumes "fst (pool_scan query sets lowest None) = Some ope"
  shows "\<exists>i < length sets. fst (query (sets ! i)) = Some ope \<and> lowest < op_delta ope
         \<and> (\<forall>j < length sets. \<forall>ope'. fst (query (sets ! j)) = Some ope' \<longrightarrow> op_delta ope' \<le> op_delta ope)
         \<and> (\<forall>j < i. \<forall>ope'. fst (query (sets ! j)) = Some ope' \<longrightarrow> op_delta ope' < op_delta ope)"
  using pool_scan_result [of query sets lowest None] assms by auto

text \<open>
  Claim C4, as amended.  \<open>OperatorPool::find_max\<close> asks every operator set once, in
  the pool's order.  It returns the null operator exactly when no set returns an operator
  whose delta is above \<open>lowest\<close>.  An operator it returns was returned by some set
  \<open>i\<close>, has a delta above \<open>lowest\<close>, no set returned a larger delta, and every set
  before \<open>i\<close> returned a smaller one.  With an empty tabu set the overload with a tabu
  set is the overload without; with a tabu set that is not empty the same holds of the
  operators the sets return for that tabu set.
\<close>

theorem pool_find_max_best_above_lowest:
  fixes model :: Model and pool :: OperatorPool and tabu_set :: OperatorTabuSet
  defines "found \<equiv> \<lambda>i. fst (OperatorSet_find_max model (m_op_sets pool ! i))"
    and "found_tabu \<equiv> \<lambda>i. fst (OperatorSet_find_max_tabu model tabu_set (m_op_sets pool ! i))"
  shows
  "(fst (OperatorPool_find_max model pool) = None \<longleftrightarrow>
      (\<forall>i < length (m_op_sets pool). \<forall>ope. found i = Some ope \<longrightarrow> op_delta ope \<le> lowest))
   \<and> (\<forall>ope. fst (OperatorPool_find_max model pool) = Some ope \<longrightarrow>
        (\<exists>i < length (m_op_sets pool). found i = Some ope \<and> lowest < op_delta ope
           \<and> (\<forall>j < length (m_op_sets pool). \<forall>ope'. found j = Some ope' \<longrightarrow> op_delta ope' \<le> op_delta ope)
           \<and> (\<forall>j < i. \<forall>ope'. found j = Some ope' \<longrightarrow> op_delta ope' < op_delta ope)))
   \<and> (tabu_empty tabu_set \<longrightarrow>
        OperatorPool_find_max_tabu model pool tabu_set = OperatorPool_find_max model pool)
   \<and> (\<not> tabu_empty tabu_set \<longrightarrow>
        (fst (OperatorPool_find_max_tabu model pool tabu_set) = None \<longleftrightarrow>
           (\<forall>i < length (m_op_sets pool). \<forall>ope. found_tabu i = Some ope \<longrightarrow> op_delta ope \<le> lowest))
        \<and> (\<forall>ope. fst (OperatorPool_find_max_tabu model pool tabu_set) = Some ope \<longrightarrow>
             (\<exists>i < length (m_op_sets pool). found_tabu i = Some ope \<and> lowest < op_delta ope
                \<and> (\<forall>j < length (m_op_sets pool). \<forall>ope'. found_tabu j = Some ope'
                      \<longrightarrow> op_delta ope' \<le> op_delta ope)
                \<and> (\<forall>j < i. \<forall>ope'. found_tabu j = Some ope' \<longrightarrow> op_delta ope' < op_delta ope))))"
proof (intro conjI impI allI)
  show "fst (OperatorPool_find_max model pool) = None \<longleftrightarrow>
      (\<forall>i < length (m_op_sets pool). \<forall>ope. found i = Some ope \<longrightarrow> op_delta ope \<le> lowest)"
    unfolding found_def OperatorPool_find_max_def Let_def fst_conv
    by (rule pool_scan_None_iff)
  show "\<exists>i < length (m_op_sets pool). found i = Some ope \<and> lowest < op_delta ope
           \<and> (\<forall>j < length (m_op_sets pool). \<forall>ope'. found j = Some ope' \<longrightarrow> op_delta ope' \<le> op_delta ope)
           \<and> (\<forall>j < i. \<forall>ope'. found j = Some ope' \<longrightarrow> op_delta ope' < op_delta ope)"
    if "fst (OperatorPool_find_max model pool) = Some ope" for ope
    using that unfolding found_def OperatorPool_find_max_def Let_def fst_conv
    by (rule pool_scan_Some)
  show "OperatorPool_find_max_tabu model pool tabu_set = OperatorPool_find_max model pool"
    if "tabu_empty tabu_set"
    using that by (simp add: OperatorPool_find_max_tabu_def)
  assume ne: "\<not> tabu_empty tabu_set"
  then have eq: "fst (OperatorPool_find_max_tabu model pool tabu_set)
      = fst (pool_scan (OperatorSet_find_max_tabu model tabu_set) (m_op_sets pool) lowest None)"
    by (simp add: OperatorPool_find_max_tabu_def Let_def)
  show "fst (OperatorPool_find_max_tabu model pool tabu_set) = None \<longleftrightarrow>
           (\<forall>i < length (m_op_sets pool). \<forall>ope. found_tabu i = Some ope \<longrightarrow> op_delta ope \<le> lowest)"
    unfolding found_tabu_def eq by (rule pool_scan_None_iff)
  show "\<exists>i < length (m_op_sets pool). found_tabu i = Some ope \<and> lowest < op_delta ope
                \<and> (\<forall>j < length (m_op_sets pool). \<forall>ope'. found_tabu j = Some ope'
                      \<longrightarrow> op_delta ope' \<le> op_delta ope)
                \<and> (\<forall>j < i. \<forall>ope'. found_tabu j = Some ope' \<longrightarrow> op_delta ope' < op_delta ope)"
    if "fst (OperatorPool_find_max_tabu model pool tabu_set) = Some ope" for ope
    using that unfolding found_tabu_def eq by (rule pool_scan_Some)
qed

lemma lowest_arcs_simps:
  "sorted_idx lowest_arcs = [2, 1]" "max_indegree lowest_arcs = 0"
  "delta lowest_arcs 0 (Suc 0) = lowest" "delta lowest_arcs (Suc 0) 0 = lowest"
  by (simp_all add: lowest_arcs_def ArcOperatorSet_cache_scores_def cache_scores_dest_def
      cache_scores_pair_def cached_local_score_def cache_local_scores_def LocalScoreCache_new_def
      lowest_score_def zero_vector_storage_def zero_storage_def constructor_simps two_nodes_def)

lemma find_max_lowest_arcs:
  "fst (ArcOperatorSet_find_max two_nodes lowest_arcs) = Some (AddArc ''a'' ''b'' lowest)"
  by (simp add: ArcOperatorSet_find_max_def find_max_indegree_def Let_def sort_sorted_idx_def
      sort_comparator_def delta_ptr_def lowest_arcs_simps arc_candidate_def)

text \<open>
  Claim C4, counterexample.  The claim as stated fails where a set returns an operator
  whose delta is not above
  \<open>lowest\<close>: the set returns \<open>AddArc(a, b)\<close> with delta \<open>lowest\<close> and the pool returns
  the null operator.
\<close>

theorem pool_drops_candidate_at_lowest:
  "fst (OperatorSet_find_max two_nodes (ArcSet lowest_arcs)) = Some (AddArc ''a'' ''b'' lowest)
   \<and> fst (OperatorPool_find_max two_nodes (example_pool [ArcSet lowest_arcs])) = None"
  by (simp add: find_max_lowest_arcs OperatorPool_find_max_def example_pool_def Let_def)

lemma find_max_example_arcs_two_nodes:
  "fst (ArcOperatorSet_find_max two_nodes (example_arcs two_nodes k)) = Some (AddArc ''a'' ''b'' 0)"
  by (simp add: ArcOperatorSet_find_max_def find_max_indegree_def Let_def sorted_two_nodes
      arc_candidate_sorted candidates_two_nodes)

lemma find_max_tabu_example_arcs_two_nodes:
  "fst (ArcOperatorSet_find_max_tabu two_nodes (example_arcs two_nodes k) [AddArc ''a'' ''b'' 7])
     = Some (AddArc ''b'' ''a'' 0)"
  by (simp add: ArcOperatorSet_find_max_tabu_def find_max_indegree_tabu_def Let_def sorted_two_nodes
      arc_candidate_sorted candidates_two_nodes tabu_contains_def)

lemma find_max_example_node_types:
  "fst (ChangeNodeTypeSet_find_max two_nodes (example_node_types two_nodes))
     = Some (ChangeNodeType ''a'' CKDE 0)"
  by (simp add: ChangeNodeTypeSet_find_max_def Let_def max_element_def)

lemma find_max_tabu_example_node_types:
  "fst (ChangeNodeTypeSet_find_max_tabu two_nodes (example_node_types two_nodes) [AddArc ''a'' ''b'' 7])
     = None"
  by (simp add: ChangeNodeTypeSet_find_max_tabu_def Let_def sort_comparator_def tabu_contains_def)

lemma find_max_example_arcs_one_node:
  "fst (ArcOperatorSet_find_max one_node (example_arcs one_node k)) = None"
  by (simp add: ArcOperatorSet_find_max_def find_max_indegree_def Let_def sort_sorted_idx_def
      example_arcs_one_node)

lemma weaken_found:
  "\<exists>i<n. P i \<and> Q \<and> R i \<and> S i \<Longrightarrow> \<exists>i<n. P i \<and> Q"
  by blast

theorem pool_find_max_best_above_lowest_witness:
  "fst (OperatorPool_find_max one_node (example_pool [ArcSet (example_arcs one_node 0)])) = None
   \<and> fst (OperatorPool_find_max two_nodes
            (example_pool [ArcSet (example_arcs two_nodes 0), NodeTypeSet (example_node_types two_nodes)]))
       = Some (AddArc ''a'' ''b'' 0)
   \<and> (\<exists>i < length (m_op_sets (example_pool
             [ArcSet (example_arcs two_nodes 0), NodeTypeSet (example_node_types two_nodes)])).
         fst (OperatorSet_find_max two_nodes (m_op_sets (example_pool
             [ArcSet (example_arcs two_nodes 0), NodeTypeSet (example_node_types two_nodes)]) ! i))
           = Some (AddArc ''a'' ''b'' 0)
         \<and> lowest < op_delta (AddArc ''a'' ''b'' 0))
   \<and> tabu_empty []
   \<and> OperatorPool_find_max_tabu two_nodes
        (example_pool [ArcSet (example_arcs two_nodes 0), NodeTypeSet (example_node_types two_nodes)]) []
       = OperatorPool_find_max two_nodes
           (example_pool [ArcSet (example_arcs two_nodes 0), NodeTypeSet (example_node_types two_nodes)])
   \<and> \<not> tabu_empty [AddArc ''a'' ''b'' 7]
   \<and> fst (OperatorPool_find_max_tabu two_nodes
            (example_pool [ArcSet (example_arcs two_nodes 0), NodeTypeSet (example_node_types two_nodes)])
            [AddArc ''a'' ''b'' 7])
       = Some (AddArc ''b'' ''a'' 0)
   \<and> (\<exists>i < length (m_op_sets (example_pool
             [ArcSet (example_arcs two_nodes 0), NodeTypeSet (example_node_types two_nodes)])).
         fst (OperatorSet_find_max_tabu two_nodes [AddArc ''a'' ''b'' 7] (m_op_sets (example_pool
             [ArcSet (example_arcs two_nodes 0), NodeTypeSet (example_node_types two_nodes)]) ! i))
           = Some (AddArc ''b'' ''a'' 0)
         \<and> lowest < op_delta (AddArc ''b'' ''a'' 0))"
  (is "?none \<and> ?best \<and> ?where \<and> ?empty \<and> ?same \<and> ?nonempty \<and> ?best_tabu \<and> ?where_tabu")
proof -
  let ?P1 = "example_pool [ArcSet (example_arcs one_node 0)]"
  let ?P2 = "example_pool [ArcSet (example_arcs two_nodes 0), NodeTypeSet (example_node_types two_nodes)]"
  let ?T = "[AddArc ''a'' ''b'' 7]"
  have lw: "lowest < 0" by (simp add: lowest_def)
  have h1: "\<forall>i < length (m_op_sets ?P1). \<forall>ope.
      fst (OperatorSet_find_max one_node (m_op_sets ?P1 ! i)) = Some ope \<longrightarrow> op_delta ope \<le> lowest"
    by (simp add: example_pool_def find_max_example_arcs_one_node)
  note none = pool_find_max_best_above_lowest [of one_node ?P1 "[]", THEN conjunct1, THEN iffD2, OF h1]
  have best: ?best
    using lw by (simp add: OperatorPool_find_max_def example_pool_def Let_def
        find_max_example_arcs_two_nodes find_max_example_node_types)
  note w = pool_find_max_best_above_lowest [of two_nodes ?P2 "[]", THEN conjunct2, THEN conjunct1,
      THEN spec, THEN mp, OF best]
  have wh: ?where
    by (rule weaken_found [OF w])
  have e: ?empty by (simp add: tabu_empty_def)
  note same = pool_find_max_best_above_lowest [of two_nodes ?P2 "[]", THEN conjunct2, THEN conjunct2,
      THEN conjunct1, THEN mp, OF e]
  have ne: ?nonempty by (simp add: tabu_empty_def)
  have bt: ?best_tabu
    using lw by (simp add: OperatorPool_find_max_tabu_def tabu_empty_def example_pool_def Let_def
        find_max_tabu_example_arcs_two_nodes find_max_tabu_example_node_types)
  note w' = pool_find_max_best_above_lowest [of two_nodes ?P2 ?T, THEN conjunct2, THEN conjunct2,
      THEN conjunct2, THEN mp, OF ne, THEN conjunct2, THEN spec, THEN mp, OF bt]
  have wt: ?where_tabu
    by (rule weaken_found [OF w'])
  show ?thesis
    by (intro conjI) (rule none best wh e same ne bt wt)+
qed

subsection \<open>The delta matrix after \<open>cache_scores\<close> and \<open>update_scores\<close>\<close>

lemma find_pos_less_iff: "find_pos x v < length v \<longleftrightarrow> x \<in> set v"
  by (induction v) auto

lemma nth_find_pos: "x \<in> set v \<Longrightarrow> v ! find_pos x v = x"
  by (induction v) auto

lemma swap_to_back_defined: "x \<in> set v \<Longrightarrow> \<exists>w. swap_to_back x v = Some w"
  by (simp add: swap_to_back_def Let_def find_pos_less_iff)

lemma swap_to_back_mset:
  assumes "swap_to_back x v = Some w"
  shows "mset w = mset v"
proof -
  from assms have p: "find_pos x v < length v"
    and w: "w = v[find_pos x v := v ! (length v - 1), length v - 1 := v ! find_pos x v]"
    by (auto simp: swap_to_back_def Let_def split: if_splits)
  from p have "length v - 1 < length v" by simp
  with p w show ?thesis by (simp add: mset_swap)
qed

lemma mset_butlast_minus_last: "w \<noteq> [] \<Longrightarrow> mset (butlast w) = mset w - {#last w#}"
  by (induction w) auto

lemma swap_to_back_butlast:
  assumes "swap_to_back x v = Some w"
  shows "mset (butlast w) = mset (remove1 x v)"
proof -
  from assms have p: "find_pos x v < length v"
    and w: "w = v[find_pos x v := v ! (length v - 1), length v - 1 := v ! find_pos x v]"
    by (auto simp: swap_to_back_def Let_def split: if_splits)
  from p have x: "x \<in> set v" by (simp add: find_pos_less_iff)
  from p have ne: "w \<noteq> []" using w by auto
  have lw: "length w = length v" using w by simp
  from ne have "last w = w ! (length v - 1)"
    by (simp add: last_conv_nth lw)
  also have "\<dots> = v ! find_pos x v"
    using p w by simp
  finally have "last w = v ! find_pos x v" .
  with x have l: "last w = x" by (simp add: nth_find_pos)
  from ne have "mset (butlast w) = mset w - {#last w#}"
    by (rule mset_butlast_minus_last)
  with l swap_to_back_mset [OF assms] show ?thesis by simp
qed

lemma for_each_preserves:
  assumes "for_each body xs st = Some st'" and "P st"
    and "\<And>i st st'. i \<in> set xs \<Longrightarrow> P st \<Longrightarrow> body i st = Some st' \<Longrightarrow> P st'"
  shows "P st'"
  using assms
proof (induction xs arbitrary: st)
  case Nil
  then show ?case by simp
next
  case (Cons x xs)
  from Cons.prems(1) obtain st1 where s1: "body x st = Some st1"
    and r: "for_each body xs st1 = Some st'"
    by (auto split: option.splits)
  from Cons.prems(3) [OF _ Cons.prems(2) s1] have p1: "P st1" by simp
  show ?case
  proof (rule Cons.IH [OF r p1])
    fix i st st'
    assume "i \<in> set xs" and "P st" and "body i st = Some st'"
    then show "P st'" using Cons.prems(3) [of i st st'] by simp
  qed
qed

lemma for_each_defined:
  assumes "P st"
    and "\<And>i st. i \<in> set xs \<Longrightarrow> P st \<Longrightarrow> \<exists>st'. body i st = Some st' \<and> P st'"
  shows "\<exists>st'. for_each body xs st = Some st' \<and> P st'"
  using assms
proof (induction xs arbitrary: st)
  case Nil
  then show ?case by simp
next
  case (Cons x xs)
  from Cons.prems(2) [OF _ Cons.prems(1)] obtain st1 where s1: "body x st = Some st1" and p: "P st1"
    by auto
  have "\<exists>st'. for_each body xs st1 = Some st' \<and> P st'"
  proof (rule Cons.IH [OF p])
    fix i st
    assume "i \<in> set xs" and "P st"
    then show "\<exists>st'. body i st = Some st' \<and> P st'" using Cons.prems(2) [of i st] by simp
  qed
  with s1 show ?case by simp
qed

lemma for_each_establishes:
  assumes "for_each body xs st = Some st'" and "k \<in> set xs" and "distinct xs" and "Inv st"
    and inv: "\<And>i st st'. i \<in> set xs \<Longrightarrow> Inv st \<Longrightarrow> body i st = Some st' \<Longrightarrow> Inv st'"
    and est: "\<And>st st'. Inv st \<Longrightarrow> body k st = Some st' \<Longrightarrow> Q st'"
    and keep: "\<And>i st st'. i \<in> set xs \<Longrightarrow> i \<noteq> k \<Longrightarrow> Inv st \<Longrightarrow> Q st \<Longrightarrow> body i st = Some st'
                 \<Longrightarrow> Q st'"
  shows "Q st'"
  using assms(1-4) inv keep
proof (induction xs arbitrary: st)
  case Nil
  then show ?case by simp
next
  case (Cons x xs)
  from Cons.prems(1) obtain st1 where s1: "body x st = Some st1"
    and r: "for_each body xs st1 = Some st'"
    by (auto split: option.splits)
  have i1: "Inv st1" using Cons.prems(5) [OF _ Cons.prems(4) s1] by simp
  show ?case
  proof (cases "x = k")
    case True
    with est [OF Cons.prems(4)] s1 have q1: "Q st1" by simp
    from Cons.prems(3) True have nk: "k \<notin> set xs" by simp
    have "Inv st' \<and> Q st'"
    proof (rule for_each_preserves [OF r, where P = "\<lambda>st. Inv st \<and> Q st"])
      show "Inv st1 \<and> Q st1" using i1 q1 by simp
    next
      fix i st st'
      assume "i \<in> set xs" and "Inv st \<and> Q st" and "body i st = Some st'"
      with nk Cons.prems(5) [of i st st'] Cons.prems(6) [of i st st']
      show "Inv st' \<and> Q st'" by auto
    qed
    then show ?thesis by simp
  next
    case False
    with Cons.prems(2) have kx: "k \<in> set xs" by simp
    from Cons.prems(3) have dx: "distinct xs" by simp
    show ?thesis
    proof (rule Cons.IH [OF r kx dx i1])
      fix i st st'
      assume "i \<in> set xs" and "Inv st" and "body i st = Some st'"
      then show "Inv st'" using Cons.prems(5) [of i st st'] by simp
    next
      fix i st st'
      assume "i \<in> set xs" and "i \<noteq> k" and "Inv st" and "Q st" and "body i st = Some st'"
      then show "Q st'" using Cons.prems(6) [of i st st'] by simp
    qed
  qed
qed

lemma coeff_set_apply: "coeff_set M i j v a b = (if a = i \<and> b = j then v else M a b)"
  by (simp add: coeff_set_def)

lemma score_of_permutation:
  "score_order_independent sc m \<Longrightarrow> mset ps = mset qs
   \<Longrightarrow> local_score sc m v ps = local_score sc m v qs"
  unfolding score_order_independent_def by blast

lemma score_without_parent:
  assumes "score_order_independent sc m" and "mset ps = mset (parent_indices m v)"
    and "swap_to_back x ps = Some w"
  shows "local_score sc m v (butlast w) = local_score sc m v (remove1 x (parent_indices m v))"
proof -
  have "mset (butlast w) = mset (remove1 x (parent_indices m v))"
    using swap_to_back_butlast [OF assms(3)] assms(2) by simp
  with assms(1) show ?thesis by (rule score_of_permutation)
qed

lemma score_with_parent:
  assumes "score_order_independent sc m" and "mset ps = mset (parent_indices m v)"
  shows "local_score sc m v (ps @ [x]) = local_score sc m v (parent_indices m v @ [x])"
  using assms by (intro score_of_permutation) simp_all

lemma cache_scores_pair_defined:
  assumes "edges_are_parents m" and "mset ps = mset (parent_indices m dest)"
  shows "\<exists>st'. cache_scores_pair m c s dest src (ps, dl) = Some st'
               \<and> mset (fst st') = mset (parent_indices m dest)"
proof -
  have a: "has_edge m src dest \<Longrightarrow> \<exists>w. swap_to_back src ps = Some w"
    using assms by (intro swap_to_back_defined) (metis edges_are_parents_def set_mset_mset)
  have b: "has_edge m dest src \<Longrightarrow> \<exists>w. swap_to_back dest (parent_indices m src) = Some w"
    using assms(1) by (intro swap_to_back_defined) (simp add: edges_are_parents_def)
  show ?thesis
  proof (cases "valid_op s src dest")
    case False
    then show ?thesis using assms(2) by (simp add: cache_scores_pair_def)
  next
    case v: True
    show ?thesis
    proof (cases "has_edge m src dest")
      case True
      with a obtain w where w: "swap_to_back src ps = Some w" by blast
      from swap_to_back_mset [OF w] assms(2) v True w show ?thesis
        by (simp add: cache_scores_pair_def Let_def)
    next
      case ne: False
      show ?thesis
      proof (cases "has_edge m dest src")
        case True
        with b obtain w where w: "swap_to_back dest (parent_indices m src) = Some w" by blast
        from assms(2) v ne True w show ?thesis
          by (simp add: cache_scores_pair_def Let_def)
      next
        case False
        with assms(2) v ne show ?thesis
          by (simp add: cache_scores_pair_def Let_def)
      qed
    qed
  qed
qed

lemma cache_scores_pair_mset:
  "cache_scores_pair m c s dest src st = Some st' \<Longrightarrow> mset (fst st') = mset (fst st)"
  by (auto simp: cache_scores_pair_def Let_def dest: swap_to_back_mset
      split: if_splits option.splits)

lemma cache_scores_pair_frame:
  assumes "cache_scores_pair m c s dest src st = Some st'"
    and "\<not> (valid_op s src dest \<and> a = src \<and> b = dest
            \<and> (has_edge m src dest \<or> \<not> has_edge m dest src))"
    and "\<not> (valid_op s src dest \<and> a = dest \<and> b = src
            \<and> \<not> has_edge m src dest \<and> has_edge m dest src)"
  shows "snd st' a b = snd st a b"
  using assms
  by (auto simp: cache_scores_pair_def Let_def coeff_set_apply split: if_splits option.splits)

lemma cache_scores_pair_writes:
  assumes "cache_scores_pair m c s dest src st = Some st'"
    and "valid_op s src dest" and "has_edge m src dest \<or> \<not> has_edge m dest src"
    and "score_order_independent (m_score s) m" and "mset (fst st) = mset (parent_indices m dest)"
  shows "snd st' src dest =
           (if has_edge m src dest
            then local_score (m_score s) m dest (remove1 src (parent_indices m dest))
                   - cached_local_score c dest
            else local_score (m_score s) m dest (parent_indices m dest @ [src])
                   - cached_local_score c dest)"
proof (cases "has_edge m src dest")
  case True
  with assms(1,2) obtain w where w: "swap_to_back src (fst st) = Some w"
    and r: "snd st' src dest = local_score (m_score s) m dest (butlast w) - cached_local_score c dest"
    by (auto simp: cache_scores_pair_def Let_def coeff_set_apply split: option.splits)
  from score_without_parent [OF assms(4,5) w] r True show ?thesis by simp
next
  case False
  with assms(3) have "\<not> has_edge m dest src" by simp
  with False assms(1,2)
  have "snd st' src dest = local_score (m_score s) m dest (fst st @ [src]) - cached_local_score c dest"
    by (auto simp: cache_scores_pair_def Let_def coeff_set_apply)
  with score_with_parent [OF assms(4,5)] False show ?thesis by simp
qed

lemma cache_scores_dest_defined:
  assumes "edges_are_parents m"
  shows "\<exists>dl'. cache_scores_dest m c s dest dl = Some dl'"
proof -
  have "\<exists>st'. for_each (cache_scores_pair m c s dest) [0..<num_nodes m] (parent_indices m dest, dl)
            = Some st' \<and> mset (fst st') = mset (parent_indices m dest)"
  proof (rule for_each_defined [where P = "\<lambda>st. mset (fst st) = mset (parent_indices m dest)"])
    show "mset (fst (parent_indices m dest, dl)) = mset (parent_indices m dest)" by simp
  next
    fix i and st :: "nat list \<times> (nat \<Rightarrow> nat \<Rightarrow> real)"
    assume "mset (fst st) = mset (parent_indices m dest)"
    with cache_scores_pair_defined [OF assms, of "fst st" dest c s i "snd st"]
    show "\<exists>st'. cache_scores_pair m c s dest i st = Some st'
            \<and> mset (fst st') = mset (parent_indices m dest)"
      by simp
  qed
  then show ?thesis by (auto simp: cache_scores_dest_def)
qed

lemma cache_scores_dest_frame:
  assumes "cache_scores_dest m c s dest dl = Some dl'"
    and "\<not> (b = dest \<and> a < num_nodes m \<and> valid_op s a dest
            \<and> (has_edge m a dest \<or> \<not> has_edge m dest a))"
    and "\<not> (a = dest \<and> b < num_nodes m \<and> valid_op s b dest
            \<and> \<not> has_edge m b dest \<and> has_edge m dest b)"
  shows "dl' a b = dl a b"
proof -
  from assms(1) obtain st' where
    f: "for_each (cache_scores_pair m c s dest) [0..<num_nodes m] (parent_indices m dest, dl) = Some st'"
    and d: "dl' = snd st'"
    by (auto simp: cache_scores_dest_def)
  have "snd st' a b = dl a b"
  proof (rule for_each_preserves [OF f, where P = "\<lambda>st. snd st a b = dl a b"])
    show "snd (parent_indices m dest, dl) a b = dl a b" by simp
  next
    fix i st st1
    assume i: "i \<in> set [0..<num_nodes m]" and p: "snd st a b = dl a b"
      and st: "cache_scores_pair m c s dest i st = Some st1"
    have "snd st1 a b = snd st a b"
      using assms(2,3) i by (intro cache_scores_pair_frame [OF st]) auto
    with p show "snd st1 a b = dl a b" by simp
  qed
  with d show ?thesis by simp
qed

lemma cache_scores_dest_writes:
  assumes "cache_scores_dest m c s dest dl = Some dl'"
    and "src < num_nodes m" and "valid_op s src dest"
    and "has_edge m src dest \<or> \<not> has_edge m dest src"
    and "score_order_independent (m_score s) m"
  shows "dl' src dest =
           (if has_edge m src dest
            then local_score (m_score s) m dest (remove1 src (parent_indices m dest))
                   - cached_local_score c dest
            else local_score (m_score s) m dest (parent_indices m dest @ [src])
                   - cached_local_score c dest)"
    (is "_ = ?v")
proof -
  from assms(1) obtain st' where
    f: "for_each (cache_scores_pair m c s dest) [0..<num_nodes m] (parent_indices m dest, dl) = Some st'"
    and d: "dl' = snd st'"
    by (auto simp: cache_scores_dest_def)
  have "snd st' src dest = ?v"
  proof (rule for_each_establishes [OF f, where k = src
        and Inv = "\<lambda>st. mset (fst st) = mset (parent_indices m dest)"
        and Q = "\<lambda>st. snd st src dest = ?v"])
    show "src \<in> set [0..<num_nodes m]" using assms(2) by simp
    show "distinct [0..<num_nodes m]" by simp
    show "mset (fst (parent_indices m dest, dl)) = mset (parent_indices m dest)" by simp
  next
    fix i st st1
    assume "mset (fst st) = mset (parent_indices m dest)"
      and "cache_scores_pair m c s dest i st = Some st1"
    then show "mset (fst st1) = mset (parent_indices m dest)"
      by (simp add: cache_scores_pair_mset)
  next
    fix st st1
    assume "mset (fst st) = mset (parent_indices m dest)"
      and "cache_scores_pair m c s dest src st = Some st1"
    then show "snd st1 src dest = ?v"
      using assms(3,4,5) by (intro cache_scores_pair_writes)
  next
    fix i st st1
    assume ne: "i \<noteq> src" and q: "snd st src dest = ?v"
      and st: "cache_scores_pair m c s dest i st = Some st1"
    have "snd st1 src dest = snd st src dest"
      using ne by (intro cache_scores_pair_frame [OF st]) auto
    with q show "snd st1 src dest = ?v" by simp
  qed
  with d show ?thesis by simp
qed

lemma cache_scores_defined:
  assumes "edges_are_parents m"
  shows "\<exists>s'. ArcOperatorSet_cache_scores m c s = Some s'"
proof -
  have "\<exists>dl'. for_each (cache_scores_dest m c s) [0..<num_nodes m] (delta s) = Some dl' \<and> True"
    by (rule for_each_defined [where P = "\<lambda>dl. True"])
      (use cache_scores_dest_defined [OF assms] in auto)
  then show ?thesis by (auto simp: ArcOperatorSet_cache_scores_def)
qed

text \<open>
  Where \<open>cache_scores\<close> agrees with the closed form: the cell \<open>(src, dest)\<close> holds the
  delta of the removal or of the addition unless the pass for the destination \<open>src\<close>
  and the source \<open>dest\<close> writes the delta of a flip into it.
\<close>

lemma cache_scores_cell:
  assumes "ArcOperatorSet_cache_scores m c s = Some s'"
    and "src < num_nodes m" and "dest < num_nodes m" and "valid_op s src dest"
    and "has_edge m src dest \<or> \<not> has_edge m dest src"
    and "\<not> (valid_op s dest src \<and> has_edge m src dest \<and> \<not> has_edge m dest src)"
    and "score_order_independent (m_score s) m"
  shows "delta s' src dest =
           (if has_edge m src dest
            then local_score (m_score s) m dest (remove1 src (parent_indices m dest))
                   - cached_local_score c dest
            else local_score (m_score s) m dest (parent_indices m dest @ [src])
                   - cached_local_score c dest)"
    (is "_ = ?v")
proof -
  from assms(1) obtain dl' where
    f: "for_each (cache_scores_dest m c s) [0..<num_nodes m] (delta s) = Some dl'"
    and d: "s' = s \<lparr> delta := dl' \<rparr>"
    by (auto simp: ArcOperatorSet_cache_scores_def)
  have "dl' src dest = ?v"
  proof (rule for_each_establishes [OF f, where k = dest and Inv = "\<lambda>dl. True"
        and Q = "\<lambda>dl. dl src dest = ?v"])
    show "dest \<in> set [0..<num_nodes m]" using assms(3) by simp
    show "distinct [0..<num_nodes m]" by simp
    show True ..
  next
    fix i and st st1 :: "nat \<Rightarrow> nat \<Rightarrow> real"
    show True ..
  next
    fix st st1 :: "nat \<Rightarrow> nat \<Rightarrow> real"
    assume "cache_scores_dest m c s dest st = Some st1"
    then show "st1 src dest = ?v"
      using assms(2,4,5,7) by (rule cache_scores_dest_writes)
  next
    fix i and st st1 :: "nat \<Rightarrow> nat \<Rightarrow> real"
    assume ne: "i \<noteq> dest" and q: "st src dest = ?v"
      and st: "cache_scores_dest m c s i st = Some st1"
    have "st1 src dest = st src dest"
      using ne assms(6) by (intro cache_scores_dest_frame [OF st]) auto
    with q show "st1 src dest = ?v" by simp
  qed
  with d show ?thesis by simp
qed

lemma update_node_defined:
  assumes "edges_are_parents m" and "mset ps = mset (parent_indices m dest)"
  shows "\<exists>st'. update_node_arcs_scores_node m c s dest i (ps, dl) = Some st'
               \<and> mset (fst st') = mset (parent_indices m dest)"
proof -
  have a: "has_edge m i dest \<Longrightarrow> \<exists>w. swap_to_back i ps = Some w"
    using assms by (intro swap_to_back_defined) (metis edges_are_parents_def set_mset_mset)
  have b: "has_edge m dest i \<Longrightarrow> \<exists>w. swap_to_back dest (parent_indices m i) = Some w"
    using assms(1) by (intro swap_to_back_defined) (simp add: edges_are_parents_def)
  show ?thesis
  proof (cases "valid_op s i dest")
    case False
    then show ?thesis using assms(2) by (simp add: update_node_arcs_scores_node_def)
  next
    case v: True
    show ?thesis
    proof (cases "has_edge m i dest")
      case True
      with a obtain w where w: "swap_to_back i ps = Some w" by blast
      from swap_to_back_mset [OF w] assms(2) v True w show ?thesis
        by (simp add: update_node_arcs_scores_node_def Let_def)
    next
      case ne: False
      show ?thesis
      proof (cases "has_edge m dest i")
        case True
        with b obtain w where w: "swap_to_back dest (parent_indices m i) = Some w" by blast
        from assms(2) v ne True w show ?thesis
          by (simp add: update_node_arcs_scores_node_def Let_def)
      next
        case False
        with assms(2) v ne show ?thesis
          by (simp add: update_node_arcs_scores_node_def Let_def)
      qed
    qed
  qed
qed

lemma update_node_mset:
  "update_node_arcs_scores_node m c s dest i st = Some st' \<Longrightarrow> mset (fst st') = mset (fst st)"
  by (auto simp: update_node_arcs_scores_node_def Let_def dest: swap_to_back_mset
      split: if_splits option.splits)

lemma update_node_frame:
  assumes "update_node_arcs_scores_node m c s dest i st = Some st'"
    and "\<not> (a = i \<and> b = dest)" and "\<not> (a = dest \<and> b = i)"
  shows "snd st' a b = snd st a b"
  using assms
  by (auto simp: update_node_arcs_scores_node_def Let_def coeff_set_apply
      split: if_splits option.splits)

lemma update_node_writes:
  assumes "update_node_arcs_scores_node m c s dest i st = Some st'"
    and "valid_op s i dest" and "i \<noteq> dest" and "has_edge m i dest \<or> \<not> has_edge m dest i"
    and "score_order_independent (m_score s) m" and "mset (fst st) = mset (parent_indices m dest)"
  shows "snd st' i dest =
           (if has_edge m i dest
            then local_score (m_score s) m dest (remove1 i (parent_indices m dest))
                   - cached_local_score c dest
            else local_score (m_score s) m dest (parent_indices m dest @ [i])
                   - cached_local_score c dest)"
proof (cases "has_edge m i dest")
  case True
  with assms(1,2,3) obtain w where w: "swap_to_back i (fst st) = Some w"
    and r: "snd st' i dest = local_score (m_score s) m dest (butlast w) - cached_local_score c dest"
    by (auto simp: update_node_arcs_scores_node_def Let_def coeff_set_apply split: option.splits)
  from score_without_parent [OF assms(5,6) w] r True show ?thesis by simp
next
  case False
  with assms(4) have "\<not> has_edge m dest i" by simp
  with False assms(1,2)
  have "snd st' i dest = local_score (m_score s) m dest (fst st @ [i]) - cached_local_score c dest"
    by (auto simp: update_node_arcs_scores_node_def Let_def coeff_set_apply)
  with score_with_parent [OF assms(5,6)] False show ?thesis by simp
qed

lemma update_node_arcs_scores_defined:
  assumes "edges_are_parents m"
  shows "\<exists>dl'. update_node_arcs_scores m c s dest_node = Some (s \<lparr> delta := dl' \<rparr>)"
proof -
  let ?d = "index m dest_node"
  have "\<exists>st'. for_each (update_node_arcs_scores_node m c s ?d) [0..<num_nodes m]
                 (parent_indices m ?d, delta s) = Some st'
            \<and> mset (fst st') = mset (parent_indices m ?d)"
  proof (rule for_each_defined [where P = "\<lambda>st. mset (fst st) = mset (parent_indices m ?d)"])
    show "mset (fst (parent_indices m ?d, delta s)) = mset (parent_indices m ?d)" by simp
  next
    fix i and st :: "nat list \<times> (nat \<Rightarrow> nat \<Rightarrow> real)"
    assume "mset (fst st) = mset (parent_indices m ?d)"
    with update_node_defined [OF assms, of "fst st" ?d c s i "snd st"]
    show "\<exists>st'. update_node_arcs_scores_node m c s ?d i st = Some st'
            \<and> mset (fst st') = mset (parent_indices m ?d)"
      by simp
  qed
  then show ?thesis by (auto simp: update_node_arcs_scores_def Let_def)
qed

text \<open>
  After \<open>update_node_arcs_scores\<close> every valid cell \<open>(src, dest)\<close> of the refreshed
  column, \<open>src \<noteq> dest\<close>, holds the delta of the removal of an existing arc
  \<open>src \<rightarrow> dest\<close>, or the delta of its addition when there is no arc between the nodes.
\<close>

lemma update_node_arcs_scores_cell:
  assumes "update_node_arcs_scores m c s dest_node = Some s'"
    and "index m dest_node = dest"
    and "src < num_nodes m" and "valid_op s src dest" and "src \<noteq> dest"
    and "has_edge m src dest \<or> \<not> has_edge m dest src"
    and "score_order_independent (m_score s) m"
  shows "delta s' src dest =
           (if has_edge m src dest
            then local_score (m_score s) m dest (remove1 src (parent_indices m dest))
                   - cached_local_score c dest
            else local_score (m_score s) m dest (parent_indices m dest @ [src])
                   - cached_local_score c dest)"
    (is "_ = ?v")
proof -
  from assms(1,2) obtain st' where
    f: "for_each (update_node_arcs_scores_node m c s dest) [0..<num_nodes m]
          (parent_indices m dest, delta s) = Some st'"
    and d: "s' = s \<lparr> delta := snd st' \<rparr>"
    by (auto simp: update_node_arcs_scores_def Let_def)
  have "snd st' src dest = ?v"
  proof (rule for_each_establishes [OF f, where k = src
        and Inv = "\<lambda>st. mset (fst st) = mset (parent_indices m dest)"
        and Q = "\<lambda>st. snd st src dest = ?v"])
    show "src \<in> set [0..<num_nodes m]" using assms(3) by simp
    show "distinct [0..<num_nodes m]" by simp
    show "mset (fst (parent_indices m dest, delta s)) = mset (parent_indices m dest)" by simp
  next
    fix i st st1
    assume "mset (fst st) = mset (parent_indices m dest)"
      and "update_node_arcs_scores_node m c s dest i st = Some st1"
    then show "mset (fst st1) = mset (parent_indices m dest)"
      by (simp add: update_node_mset)
  next
    fix st st1
    assume "mset (fst st) = mset (parent_indices m dest)"
      and "update_node_arcs_scores_node m c s dest src st = Some st1"
    then show "snd st1 src dest = ?v"
      using assms(4,5,6,7) by (intro update_node_writes)
  next
    fix i st st1
    assume ne: "i \<noteq> src" and q: "snd st src dest = ?v"
      and st: "update_node_arcs_scores_node m c s dest i st = Some st1"
    have "snd st1 src dest = snd st src dest"
      using ne assms(5) by (intro update_node_frame [OF st]) auto
    with q show "snd st1 src dest = ?v" by simp
  qed
  with d show ?thesis by simp
qed

lemma update_scores_cell:
  assumes "edges_are_parents m" and "score_order_independent (m_score s) m"
    and "src < num_nodes m" and "valid_op s src dest" and "src \<noteq> dest"
    and "has_edge m src dest \<or> \<not> has_edge m dest src"
    and "index m dest_node = dest"
    and "ope = AddArc a dest_node d \<or> ope = RemoveArc a dest_node d
         \<or> ope = FlipArc a dest_node d \<or> ope = ChangeNodeType dest_node ty d"
  shows "\<exists>s'. ArcOperatorSet_update_scores m c s ope = Some s'
          \<and> delta s' src dest =
           (if has_edge m src dest
            then local_score (m_score s) m dest (remove1 src (parent_indices m dest))
                   - cached_local_score c dest
            else local_score (m_score s) m dest (parent_indices m dest @ [src])
                   - cached_local_score c dest)"
proof -
  have one: "\<exists>s'. update_node_arcs_scores m c s0 dest_node = Some s'
          \<and> delta s' src dest =
           (if has_edge m src dest
            then local_score (m_score s) m dest (remove1 src (parent_indices m dest))
                   - cached_local_score c dest
            else local_score (m_score s) m dest (parent_indices m dest @ [src])
                   - cached_local_score c dest)"
    if "valid_op s0 = valid_op s" and "m_score s0 = m_score s" for s0
  proof -
    from update_node_arcs_scores_defined [OF assms(1)] obtain dl'
      where u: "update_node_arcs_scores m c s0 dest_node = Some (s0 \<lparr> delta := dl' \<rparr>)"
      by blast
    from update_node_arcs_scores_cell [OF u assms(7,3) _ assms(5,6)] assms(2,4) that
    show ?thesis using u by simp
  qed
  from assms(8) consider "ope = AddArc a dest_node d" | "ope = RemoveArc a dest_node d"
    | "ope = FlipArc a dest_node d" | "ope = ChangeNodeType dest_node ty d"
    by blast
  then show ?thesis
  proof cases
    case 1
    with one [of s] show ?thesis by simp
  next
    case 2
    with one [of s] show ?thesis by simp
  next
    case 3
    from update_node_arcs_scores_defined [OF assms(1)] obtain dl'
      where u: "update_node_arcs_scores m c s a = Some (s \<lparr> delta := dl' \<rparr>)"
      by blast
    from one [of "s \<lparr> delta := dl' \<rparr>"] u 3 show ?thesis by simp
  next
    case 4
    with one [of s] show ?thesis by simp
  qed
qed

lemma for_each_append:
  "for_each body (xs @ ys) st =
     (case for_each body xs st of None \<Rightarrow> None | Some st' \<Rightarrow> for_each body ys st')"
  by (induction xs arbitrary: st) (auto split: option.splits)

lemma update_node_writes_flip:
  assumes "update_node_arcs_scores_node m c s dest i st = Some st'"
    and "valid_op s i dest" and "\<not> has_edge m i dest" and "has_edge m dest i"
    and "score_order_independent (m_score s) m" and "mset (fst st) = mset (parent_indices m dest)"
  shows "snd st' dest i =
           local_score (m_score s) m i (remove1 dest (parent_indices m i))
             + local_score (m_score s) m dest (parent_indices m dest @ [i])
             - cached_local_score c i - cached_local_score c dest"
proof -
  from assms(1,2,3,4) obtain w where w: "swap_to_back dest (parent_indices m i) = Some w"
    and r: "snd st' dest i = local_score (m_score s) m i (butlast w)
              + local_score (m_score s) m dest (fst st @ [i])
              - cached_local_score c i - cached_local_score c dest"
    by (auto simp: update_node_arcs_scores_node_def Let_def coeff_set_apply split: option.splits)
  have "local_score (m_score s) m i (butlast w)
      = local_score (m_score s) m i (remove1 dest (parent_indices m i))"
    by (rule score_without_parent [OF assms(5) _ w]) simp
  with score_with_parent [OF assms(5,6)] r show ?thesis by simp
qed

lemma update_node_writes_reverse:
  assumes "update_node_arcs_scores_node m c s dest i st = Some st'"
    and "valid_op s i dest" and "has_edge m i dest"
    and "score_order_independent (m_score s) m" and "mset (fst st) = mset (parent_indices m dest)"
  shows "snd st' dest i =
           local_score (m_score s) m dest (remove1 i (parent_indices m dest))
             - cached_local_score c dest
             + local_score (m_score s) m i (parent_indices m i @ [dest])
             - cached_local_score c i"
proof -
  from assms(1,2,3) obtain w where w: "swap_to_back i (fst st) = Some w"
    and r: "snd st' dest i = local_score (m_score s) m dest (butlast w) - cached_local_score c dest
              + local_score (m_score s) m i (parent_indices m i @ [dest])
              - cached_local_score c i"
    by (auto simp: update_node_arcs_scores_node_def Let_def coeff_set_apply split: option.splits)
  from score_without_parent [OF assms(4,5) w] r show ?thesis by simp
qed

text \<open>
  What \<open>update_node_arcs_scores\<close> leaves in the reverse cell \<open>(dest, src)\<close> of a valid
  cell \<open>(src, dest)\<close>: for an arc \<open>src \<rightarrow> dest\<close>, the delta of the removal plus the
  change of the score of \<open>src\<close> when \<open>dest\<close> becomes its parent, which is the delta of
  the flip; for an arc \<open>dest \<rightarrow> src\<close>, the delta of its flip.
\<close>

lemma update_node_arcs_scores_flip_cells:
  assumes "update_node_arcs_scores m c s dest_node = Some s'"
    and "index m dest_node = dest"
    and "src < num_nodes m" and "valid_op s src dest" and "src \<noteq> dest"
    and "score_order_independent (m_score s) m"
  shows "delta s' dest src =
           (if has_edge m src dest
            then local_score (m_score s) m dest (remove1 src (parent_indices m dest))
                   - cached_local_score c dest
                   + local_score (m_score s) m src (parent_indices m src @ [dest])
                   - cached_local_score c src
            else if has_edge m dest src
            then local_score (m_score s) m src (remove1 dest (parent_indices m src))
                   + local_score (m_score s) m dest (parent_indices m dest @ [src])
                   - cached_local_score c src - cached_local_score c dest
            else delta s dest src)"
    (is "_ = ?v")
proof -
  from assms(1,2) obtain st' where
    f: "for_each (update_node_arcs_scores_node m c s dest) [0..<num_nodes m]
          (parent_indices m dest, delta s) = Some st'"
    and d: "s' = s \<lparr> delta := snd st' \<rparr>"
    by (auto simp: update_node_arcs_scores_def Let_def)
  have before: "snd st0 dest src = delta s dest src"
    if "for_each (update_node_arcs_scores_node m c s dest) xs (parent_indices m dest, delta s) = Some st0"
      and "src \<notin> set xs" for xs st0
  proof (rule for_each_preserves [OF that(1), where P = "\<lambda>st. snd st dest src = delta s dest src"])
    show "snd (parent_indices m dest, delta s) dest src = delta s dest src" by simp
  next
    fix i st st1
    assume "i \<in> set xs" and p: "snd st dest src = delta s dest src"
      and st: "update_node_arcs_scores_node m c s dest i st = Some st1"
    with that(2) have "i \<noteq> src" by auto
    then have "snd st1 dest src = snd st dest src"
      using assms(5) by (intro update_node_frame [OF st]) auto
    with p show "snd st1 dest src = delta s dest src" by simp
  qed
  have "[0..<num_nodes m] = [0..<src] @ [src..<num_nodes m]"
    using assms(3) upt_add_eq_append [of 0 src "num_nodes m - src"] by simp
  then have "[0..<num_nodes m] = [0..<src] @ src # [Suc src..<num_nodes m]"
    using assms(3) by (simp add: upt_conv_Cons)
  with f obtain sa sb where
    fa: "for_each (update_node_arcs_scores_node m c s dest) [0..<src] (parent_indices m dest, delta s) = Some sa"
    and fb: "update_node_arcs_scores_node m c s dest src sa = Some sb"
    and fc: "for_each (update_node_arcs_scores_node m c s dest) [Suc src..<num_nodes m] sb = Some st'"
    by (auto simp: for_each_append split: option.splits)
  have ia: "mset (fst sa) = mset (parent_indices m dest)"
    by (rule for_each_preserves [OF fa, where P = "\<lambda>st. mset (fst st) = mset (parent_indices m dest)"])
      (simp_all add: update_node_mset)
  have va: "snd sa dest src = delta s dest src"
    by (rule before [OF fa]) simp
  have vb: "snd sb dest src = ?v"
  proof (cases "has_edge m src dest")
    case True
    with update_node_writes_reverse [OF fb assms(4) True assms(6) ia] show ?thesis by simp
  next
    case ne: False
    show ?thesis
    proof (cases "has_edge m dest src")
      case True
      with update_node_writes_flip [OF fb assms(4) ne True assms(6) ia] ne show ?thesis by simp
    next
      case False
      with ne fb assms(4,5) va show ?thesis
        by (auto simp: update_node_arcs_scores_node_def Let_def coeff_set_apply)
    qed
  qed
  have "snd st' dest src = ?v"
  proof (rule for_each_preserves [OF fc, where P = "\<lambda>st. snd st dest src = ?v"])
    show "snd sb dest src = ?v" by (rule vb)
  next
    fix i st st1
    assume "i \<in> set [Suc src..<num_nodes m]" and p: "snd st dest src = ?v"
      and st: "update_node_arcs_scores_node m c s dest i st = Some st1"
    then have "i \<noteq> src" by auto
    then have "snd st1 dest src = snd st dest src"
      using assms(5) by (intro update_node_frame [OF st]) auto
    with p show "snd st1 dest src = ?v" by simp
  qed
  with d show ?thesis by simp
qed

lemma score_order_independent_count_score: "score_order_independent count_score m"
  by (auto simp: score_order_independent_def count_score_def dest: mset_eq_length)

lemma edges_are_parents_examples: "edges_are_parents two_nodes" "edges_are_parents arc_b_a"
  by (auto simp: edges_are_parents_def two_nodes_def arc_b_a_def)

lemma example_cache_simps [simp]:
  "m_local_score (example_cache two_nodes) = [0, 0]"
  "m_local_score (example_cache arc_b_a) = [1, 0]"
  by (simp_all add: example_cache_def cache_local_scores_def LocalScoreCache_new_def upt_2
      count_score_def two_nodes_def arc_b_a_def zero_vector_storage_def)

lemma example_arcs_more_simps [simp]:
  "m_score (example_arcs two_nodes k) = count_score"
  "m_score (example_arcs arc_b_a k) = count_score"
  "valid_op (example_arcs two_nodes k) i j = (\<not> (i = j \<and> i < 2))"
  "valid_op (example_arcs arc_b_a k) i j = (\<not> (i = j \<and> i < 2))"
  by (auto simp add: example_arcs_def constructor_simps arc_b_a_def two_nodes_def)

lemma example_parents [simp]:
  "parent_indices two_nodes v = []" "parent_indices arc_b_a v = (if v = 0 then [1] else [])"
  "index two_nodes ''a'' = 0" "index two_nodes ''b'' = 1"
  "index arc_b_a ''a'' = 0" "index arc_b_a ''b'' = 1"
  by (simp_all add: two_nodes_def arc_b_a_def)

lemma arc_a_b_simps [simp]:
  "num_nodes arc_a_b = 2" "name arc_a_b 0 = ''a''" "name arc_a_b (Suc 0) = ''b''"
  "has_edge arc_a_b i j = (i = 0 \<and> j = 1)" "can_add_edge arc_a_b i j = False"
  "can_flip_edge arc_a_b i j = (i = 0 \<and> j = 1)"
  "parent_indices arc_a_b v = (if v = 1 then [0] else [])"
  by (simp_all add: arc_a_b_def two_nodes_def)

lemma example_arcs_arc_a_b [simp]:
  "sorted_idx (example_arcs arc_a_b k) = [2, 1]"
  "delta (example_arcs arc_a_b k) i j = (if i = j \<and> i < 2 then lowest else 0)"
  "max_indegree (example_arcs arc_a_b k) = k"
  "m_score (example_arcs arc_a_b k) = count_score"
  "valid_op (example_arcs arc_a_b k) i j = (\<not> (i = j \<and> i < 2))"
  by (auto simp add: example_arcs_def constructor_simps arc_a_b_def two_nodes_def zero_storage_def)

lemma example_cache_arc_a_b [simp]: "m_local_score (example_cache arc_a_b) = [0, 1]"
  by (simp add: example_cache_def cache_local_scores_def LocalScoreCache_new_def upt_2
      count_score_def two_nodes_def arc_a_b_def zero_vector_storage_def)

lemmas cache_scores_simps = after_cache_scores_def ArcOperatorSet_cache_scores_def
  cache_scores_dest_def cache_scores_pair_def swap_to_back_def cached_local_score_def upt_2
  coeff_set_def count_score_def Let_def

text \<open>
  Claim C2.  The claim wants the cell of an existing arc to hold the delta of its removal
  after \<open>cache_scores\<close>.  On the model with the single arc \<open>b \<rightarrow> a\<close> and both
  off-diagonal cells valid that delta is \<open>-1\<close> under \<open>count_score\<close>.  \<open>cache_scores\<close>
  writes it into the cell \<open>(b, a)\<close> in the pass for the destination \<open>a\<close> (line 615), and
  the later pass for the destination \<open>b\<close> and the source \<open>a\<close> overwrites the same cell
  with the delta of the flip, 0 (line 625); the operator \<open>find_max\<close> builds for that
  cell is \<open>RemoveArc(b, a)\<close> with delta 0.  \<open>update_node_arcs_scores\<close> for the node \<open>a\<close>
  leaves \<open>-1\<close> in the cell \<open>(b, a)\<close> and stores the delta of the flip in the reverse
  cell \<open>(a, b)\<close>.  With the indices of the two nodes exchanged the passes of
  \<open>cache_scores\<close> run in the other order and the cell of the arc keeps \<open>-1\<close>.
\<close>

theorem cache_scores_remove_delta_depends_on_index_order:
  "ArcOperatorSet_cache_scores arc_b_a (example_cache arc_b_a) (example_arcs arc_b_a 0) \<noteq> None
   \<and> valid_op (example_arcs arc_b_a 0) 1 0
   \<and> valid_op (example_arcs arc_b_a 0) 0 1
   \<and> has_edge arc_b_a 1 0
   \<and> local_score (m_score (example_arcs arc_b_a 0)) arc_b_a 0 (remove1 1 (parent_indices arc_b_a 0))
        - cached_local_score (example_cache arc_b_a) 0 = - 1
   \<and> delta (after_cache_scores arc_b_a (example_cache arc_b_a) (example_arcs arc_b_a 0)) 1 0 = 0
   \<and> arc_candidate False arc_b_a
        (after_cache_scores arc_b_a (example_cache arc_b_a) (example_arcs arc_b_a 0)) 1
       = Some (RemoveArc ''b'' ''a'' 0)
   \<and> update_node_arcs_scores arc_b_a (example_cache arc_b_a) (example_arcs arc_b_a 0) ''a'' \<noteq> None
   \<and> delta (after_update_node_arcs_scores arc_b_a (example_cache arc_b_a)
               (example_arcs arc_b_a 0) ''a'') 1 0 = - 1
   \<and> delta (after_update_node_arcs_scores arc_b_a (example_cache arc_b_a)
               (example_arcs arc_b_a 0) ''a'') 0 1 = 0
   \<and> ArcOperatorSet_cache_scores arc_a_b (example_cache arc_a_b) (example_arcs arc_a_b 0) \<noteq> None
   \<and> has_edge arc_a_b 0 1
   \<and> local_score (m_score (example_arcs arc_a_b 0)) arc_a_b 1 (remove1 0 (parent_indices arc_a_b 1))
        - cached_local_score (example_cache arc_a_b) 1 = - 1
   \<and> delta (after_cache_scores arc_a_b (example_cache arc_a_b) (example_arcs arc_a_b 0)) 0 1 = - 1"
  by (simp add: cache_scores_simps arc_candidate_def after_update_node_arcs_scores_def
      update_node_arcs_scores_def update_node_arcs_scores_node_def)

end
